theory Spec2Isabelle
  imports
    Complex_Main
    "HOL-Library.Char_ord"
    "HOL-Library.List_Lexorder"
    "HOL-Library.AList"
    "HOL-Library.Finite_Map"
begin

section \<open>Python strings\<close>

text \<open>
  A Python \<^verbatim>\<open>str\<close> is modelled as a \<^typ>\<open>string\<close> whose characters are the code points
  below 256. The character classes below are those of \<^verbatim>\<open>str.isspace\<close>, \<^verbatim>\<open>str.lower\<close> and
  \<^verbatim>\<open>str.splitlines\<close> on that range. The order on strings (comparison of code points,
  a proper prefix first) is the one Python's \<^verbatim>\<open>sorted\<close> uses.
\<close>

definition py_isspace :: "char \<Rightarrow> bool" where
  "py_isspace c = (c \<in> set [CHR 0x09, CHR 0x0A, CHR 0x0B, CHR 0x0C, CHR 0x0D,
                             CHR 0x1C, CHR 0x1D, CHR 0x1E, CHR 0x1F, CHR 0x20,
                             CHR 0x85, CHR 0xA0])"

definition strip :: "string \<Rightarrow> string" where
  "strip s = rev (dropWhile py_isspace (rev (dropWhile py_isspace s)))"

text \<open>\<^verbatim>\<open>s.split(sep)\<close> for a one-character separator: always at least one part.\<close>

fun split_on :: "char \<Rightarrow> string \<Rightarrow> string list" where
  "split_on sep [] = [[]]"
| "split_on sep (c # cs) =
     (if c = sep then [] # split_on sep cs
      else (case split_on sep cs of
              [] \<Rightarrow> [[c]]
            | w # ws \<Rightarrow> (c # w) # ws))"

text \<open>
  \<^verbatim>\<open>s.split()\<close> without a separator: the maximal runs of non-whitespace characters.
  The first argument is the run being read, reversed.
\<close>

fun split_ws_from :: "string \<Rightarrow> string \<Rightarrow> string list" where
  "split_ws_from cur [] = (if cur = [] then [] else [rev cur])"
| "split_ws_from cur (c # cs) =
     (if py_isspace c
      then (if cur = [] then split_ws_from [] cs else rev cur # split_ws_from [] cs)
      else split_ws_from (c # cur) cs)"

definition split_ws :: "string \<Rightarrow> string list" where
  "split_ws s = split_ws_from [] s"

definition py_lower_char :: "char \<Rightarrow> char" where
  "py_lower_char c =
     (let n = (of_char c :: nat)
      in if (65 \<le> n \<and> n \<le> 90) \<or> (192 \<le> n \<and> n \<le> 222 \<and> n \<noteq> 215)
         then char_of (n + 32) else c)"

definition lower :: "string \<Rightarrow> string" where
  "lower s = map py_lower_char s"

definition endswith :: "string \<Rightarrow> string \<Rightarrow> bool" where
  "endswith s suf = (length suf \<le> length s \<and> drop (length s - length suf) s = suf)"

text \<open>
  \<^verbatim>\<open>s.splitlines()\<close>: a line ends at \<^verbatim>\<open>\n\<close>, \<^verbatim>\<open>\r\<close>, \<^verbatim>\<open>\r\n\<close>, \<^verbatim>\<open>\v\<close>, \<^verbatim>\<open>\f\<close>, \<^verbatim>\<open>\x1c\<close>,
  \<^verbatim>\<open>\x1d\<close>, \<^verbatim>\<open>\x1e\<close> or \<^verbatim>\<open>\x85\<close>; the line ends are dropped and no empty last line is
  produced. The first argument is the line being read, reversed.
\<close>

definition is_linebreak :: "char \<Rightarrow> bool" where
  "is_linebreak c = (c \<in> set [CHR 0x0A, CHR 0x0D, CHR 0x0B, CHR 0x0C,
                               CHR 0x1C, CHR 0x1D, CHR 0x1E, CHR 0x85])"

fun splitlines_from :: "string \<Rightarrow> string \<Rightarrow> string list" where
  "splitlines_from cur [] = (if cur = [] then [] else [rev cur])"
| "splitlines_from cur (c # cs) =
     (if is_linebreak c
      then (case cs of
              d # ds \<Rightarrow> (if c = CHR 0x0D \<and> d = CHR 0x0A
                         then rev cur # splitlines_from [] ds
                         else rev cur # splitlines_from [] cs)
            | [] \<Rightarrow> [rev cur])
      else splitlines_from (c # cur) cs)"

definition splitlines :: "string \<Rightarrow> string list" where
  "splitlines s = splitlines_from [] s"

section \<open>Python numbers\<close>

text \<open>
  \<^verbatim>\<open>int\<close> is \<^typ>\<open>int\<close>. A \<^verbatim>\<open>float\<close> is a finite value or one of the three special
  values. Finite values are kept as exact rationals: the rounding of binary64, its
  overflow to infinity and the sign of zero are not part of this model. The special
  values follow the IEEE rules in subtraction and multiplication.
\<close>

datatype pyfloat = Finite rat | PosInf | NegInf | NaN

datatype py_error = ValueError | OverflowError | AttributeError | OSError

fun fsub :: "pyfloat \<Rightarrow> pyfloat \<Rightarrow> pyfloat" where
  "fsub (Finite a) (Finite b) = Finite (a - b)"
| "fsub NaN _ = NaN"
| "fsub _ NaN = NaN"
| "fsub PosInf PosInf = NaN"
| "fsub NegInf NegInf = NaN"
| "fsub PosInf _ = PosInf"
| "fsub NegInf _ = NegInf"
| "fsub (Finite a) PosInf = NegInf"
| "fsub (Finite a) NegInf = PosInf"

fun fsign_mul :: "bool \<Rightarrow> bool \<Rightarrow> pyfloat" where
  "fsign_mul neg1 neg2 = (if neg1 = neg2 then PosInf else NegInf)"

fun fmul :: "pyfloat \<Rightarrow> pyfloat \<Rightarrow> pyfloat" where
  "fmul (Finite a) (Finite b) = Finite (a * b)"
| "fmul NaN _ = NaN"
| "fmul _ NaN = NaN"
| "fmul PosInf PosInf = PosInf"
| "fmul PosInf NegInf = NegInf"
| "fmul NegInf PosInf = NegInf"
| "fmul NegInf NegInf = PosInf"
| "fmul (Finite a) PosInf = (if a = 0 then NaN else fsign_mul (a < 0) False)"
| "fmul (Finite a) NegInf = (if a = 0 then NaN else fsign_mul (a < 0) True)"
| "fmul PosInf (Finite b) = (if b = 0 then NaN else fsign_mul False (b < 0))"
| "fmul NegInf (Finite b) = (if b = 0 then NaN else fsign_mul True (b < 0))"

text \<open>\<^verbatim>\<open>int(f)\<close> for a float: truncation towards zero; NaN and the infinities raise.\<close>

fun float_to_int :: "pyfloat \<Rightarrow> py_error + int" where
  "float_to_int (Finite a) = Inr (if 0 \<le> a then \<lfloor>a\<rfloor> else \<lceil>a\<rceil>)"
| "float_to_int NaN = Inl ValueError"
| "float_to_int PosInf = Inl OverflowError"
| "float_to_int NegInf = Inl OverflowError"

subsection \<open>Numeric literals accepted by \<^verbatim>\<open>int()\<close> and \<^verbatim>\<open>float()\<close>\<close>

definition is_digit :: "char \<Rightarrow> bool" where
  "is_digit c = (let n = (of_char c :: nat) in 48 \<le> n \<and> n \<le> 57)"

definition digit_val :: "char \<Rightarrow> nat" where
  "digit_val c = of_char c - 48"

text \<open>
  \<^verbatim>\<open>digitpart ::= digit (["_"] digit)*\<close>: the value read so far is the first argument.
\<close>

fun digitpart_from :: "nat \<Rightarrow> string \<Rightarrow> nat option" where
  "digitpart_from n [] = Some n"
| "digitpart_from n (c # cs) =
     (if is_digit c then digitpart_from (10 * n + digit_val c) cs
      else if c = CHR ''_''
      then (case cs of
              [] \<Rightarrow> None
            | d # ds \<Rightarrow> (if is_digit d then digitpart_from (10 * n + digit_val d) ds
                         else None))
      else None)"

definition digitpart :: "string \<Rightarrow> nat option" where
  "digitpart s =
     (case s of
        [] \<Rightarrow> None
      | c # cs \<Rightarrow> (if is_digit c then digitpart_from (digit_val c) cs else None))"

text \<open>An optional sign: whether it is a minus, and the rest.\<close>

definition split_sign :: "string \<Rightarrow> bool \<times> string" where
  "split_sign s =
     (case s of
        [] \<Rightarrow> (False, [])
      | c # cs \<Rightarrow> (if c = CHR ''-'' then (True, cs)
                   else if c = CHR ''+'' then (False, cs)
                   else (False, s)))"

text \<open>
  \<^verbatim>\<open>int(s)\<close> for a string, base 10: surrounding whitespace is ignored, then
  \<^verbatim>\<open>[sign] digitpart\<close>. \<^const>\<open>None\<close> is the \<^verbatim>\<open>ValueError\<close>. The bound that CPython 3.11
  and later put on the number of digits (4300 unless configured) is not part of the
  model.
\<close>

definition py_int :: "string \<Rightarrow> int option" where
  "py_int s =
     (let (neg, body) = split_sign (strip s)
      in map_option (\<lambda>n. if neg then - int n else int n) (digitpart body))"

text \<open>
  \<^verbatim>\<open>float(s)\<close> for a string: surrounding whitespace is ignored, then
  \<^verbatim>\<open>[sign] (floatnumber | "inf" | "infinity" | "nan")\<close>, the words in any case, with
  \<^verbatim>\<open>floatnumber ::= number [exponent]\<close>,
  \<^verbatim>\<open>number ::= [digitpart] "." digitpart | digitpart ["."]\<close> and
  \<^verbatim>\<open>exponent ::= ("e" | "E") [sign] digitpart\<close>.
\<close>

definition is_exp_mark :: "char \<Rightarrow> bool" where
  "is_exp_mark c = (c = CHR ''e'' \<or> c = CHR ''E'')"

definition is_point :: "char \<Rightarrow> bool" where
  "is_point c = (c = CHR ''.'')"

definition float_fraction :: "string \<Rightarrow> rat option" where
  "float_fraction s =
     map_option (\<lambda>n. of_nat n / 10 ^ length (filter is_digit s)) (digitpart s)"

definition float_mantissa :: "string \<Rightarrow> rat option" where
  "float_mantissa m =
     (let ip = takeWhile (\<lambda>c. \<not> is_point c) m;
          fr = dropWhile (\<lambda>c. \<not> is_point c) m
      in if fr = [] \<or> tl fr = [] then map_option of_nat (digitpart ip)
         else if ip = [] then float_fraction (tl fr)
         else (case (digitpart ip, float_fraction (tl fr)) of
                 (Some a, Some b) \<Rightarrow> Some (of_nat a + b)
               | _ \<Rightarrow> None))"

definition float_exponent :: "string \<Rightarrow> int option" where
  "float_exponent s =
     (let (neg, body) = split_sign s
      in map_option (\<lambda>n. if neg then - int n else int n) (digitpart body))"

definition scale10 :: "rat \<Rightarrow> int \<Rightarrow> rat" where
  "scale10 a e = (if 0 \<le> e then a * 10 ^ nat e else a / 10 ^ nat (- e))"

definition float_number :: "string \<Rightarrow> rat option" where
  "float_number s =
     (let m = takeWhile (\<lambda>c. \<not> is_exp_mark c) s;
          r = dropWhile (\<lambda>c. \<not> is_exp_mark c) s
      in case (float_mantissa m, if r = [] then Some 0 else float_exponent (tl r)) of
           (Some a, Some e) \<Rightarrow> Some (scale10 a e)
         | _ \<Rightarrow> None)"

definition py_float :: "string \<Rightarrow> pyfloat option" where
  "py_float s =
     (let (neg, body) = split_sign (strip s)
      in if lower body = ''inf'' \<or> lower body = ''infinity''
         then Some (if neg then NegInf else PosInf)
         else if lower body = ''nan'' then Some NaN
         else map_option (\<lambda>a. Finite (if neg then - a else a)) (float_number body))"

section \<open>The box-string parser\<close>

subsection \<open>\<^verbatim>\<open>scripts/reorganize_dataset.py\<close>\<close>

record box_row =
  item :: nat
  x :: pyfloat
  y :: pyfloat
  width :: pyfloat
  height :: pyfloat
  label :: int

text \<open>
  The body of the loop over \<^verbatim>\<open>enumerate(box_strings)\<close>: the boxes after the segment
  \<open>box_str\<close> with index \<open>item_id\<close>. A token that \<^verbatim>\<open>float\<close> rejects raises \<^verbatim>\<open>ValueError\<close>
  inside the list comprehension; the \<^verbatim>\<open>except\<close> clause goes on with the next segment.
\<close>

definition parse_box :: "nat \<Rightarrow> string \<Rightarrow> box_row list \<Rightarrow> box_row list" where
  "parse_box item_id box_str boxes =
     (if strip box_str \<noteq> []
      then (case those (map py_float (split_ws (strip box_str))) of
              None \<Rightarrow> boxes
            | Some coords \<Rightarrow>
                (case coords of
                   [x1, y1, x2, y2] \<Rightarrow>
                     boxes @ [\<lparr>item = item_id, x = x1, y = y1,
                               width = fsub x2 x1, height = fsub y2 y1, label = 1\<rparr>]
                 | _ \<Rightarrow> boxes))
      else boxes)"

fun parse_boxes_loop :: "nat \<Rightarrow> string list \<Rightarrow> box_row list \<Rightarrow> box_row list" where
  "parse_boxes_loop item_id [] boxes = boxes"
| "parse_boxes_loop item_id (box_str # rest) boxes =
     parse_boxes_loop (Suc item_id) rest (parse_box item_id box_str boxes)"

text \<open>The argument is \<^const>\<open>None\<close> for Python's \<^verbatim>\<open>None\<close>.\<close>

definition parse_boxes_string :: "string option \<Rightarrow> box_row list" where
  "parse_boxes_string boxes_string =
     (case boxes_string of
        None \<Rightarrow> []
      | Some s \<Rightarrow> (if s = [] then [] else parse_boxes_loop 0 (split_on CHR '';'' s) []))"

text \<open>
  The segments for which the loop body appends a box: \<^verbatim>\<open>float\<close> converts every token
  and \<^verbatim>\<open>len(coords) == 4\<close>.
\<close>

definition accepted :: "string \<Rightarrow> bool" where
  "accepted box_str =
     (case those (map py_float (split_ws (strip box_str))) of
        None \<Rightarrow> False
      | Some coords \<Rightarrow> length coords = 4)"

subsection \<open>\<^verbatim>\<open>data/origin/generate_coco_annotations.py\<close>\<close>

record 'n box_rec =
  bbox :: "'n list"
  area :: 'n

definition parse_box_coco :: "string \<Rightarrow> int box_rec list \<Rightarrow> int box_rec list" where
  "parse_box_coco box_str boxes =
     (if strip box_str \<noteq> []
      then (case those (map py_int (split_ws (strip box_str))) of
              None \<Rightarrow> boxes
            | Some coords \<Rightarrow>
                (case coords of
                   [x1, y1, x2, y2] \<Rightarrow>
                     boxes @ [\<lparr>bbox = [x1, y1, x2 - x1, y2 - y1],
                               area = (x2 - x1) * (y2 - y1)\<rparr>]
                 | _ \<Rightarrow> boxes))
      else boxes)"

fun parse_boxes_loop_coco :: "string list \<Rightarrow> int box_rec list \<Rightarrow> int box_rec list" where
  "parse_boxes_loop_coco [] boxes = boxes"
| "parse_boxes_loop_coco (box_str # rest) boxes =
     parse_boxes_loop_coco rest (parse_box_coco box_str boxes)"

definition parse_boxes_string_coco :: "string option \<Rightarrow> int box_rec list" where
  "parse_boxes_string_coco boxes_string =
     (case boxes_string of
        None \<Rightarrow> []
      | Some s \<Rightarrow> (if s = [] then [] else parse_boxes_loop_coco (split_on CHR '';'' s) []))"

section \<open>\<^verbatim>\<open>pathlib\<close>: the stem of a file name\<close>

text \<open>
  \<^verbatim>\<open>Path(p).name\<close> is the last component of the path, the empty components and the
  components \<^verbatim>\<open>.\<close> left out. \<^verbatim>\<open>Path(p).stem\<close> is the name without its last suffix: the
  name up to its last dot, when that dot is neither the first nor the last character
  (CPython up to 3.13).
\<close>

definition path_name :: "string \<Rightarrow> string" where
  "path_name p =
     (let parts = filter (\<lambda>c. c \<noteq> [] \<and> c \<noteq> ''.'') (split_on CHR ''/'' p)
      in if parts = [] then [] else last parts)"

text \<open>\<^verbatim>\<open>name.rfind('.')\<close>, \<^const>\<open>None\<close> for -1.\<close>

definition rfind_dot :: "string \<Rightarrow> nat option" where
  "rfind_dot name =
     (if CHR ''.'' \<in> set name
      then Some (length name - 1 - length (takeWhile (\<lambda>c. c \<noteq> CHR ''.'') (rev name)))
      else None)"

definition stem :: "string \<Rightarrow> string" where
  "stem p =
     (let name = path_name p
      in case rfind_dot name of
           None \<Rightarrow> name
         | Some i \<Rightarrow> (if 0 < i \<and> i < length name - 1 then take i name else name))"

section \<open>Files\<close>

text \<open>
  A directory is a finite map from file names to contents; the name of an image is a
  single path component. Image and JSON files are byte strings. A CSV file is kept as
  the \<^verbatim>\<open>csv\<close> module reads it: the first record as field names (\<^const>\<open>None\<close> for a file
  with no record), then the records. A cell written by \<^verbatim>\<open>csv.writer\<close> is \<^verbatim>\<open>str(v)\<close> of a
  number \<open>v\<close>; it is kept as that number, since \<^verbatim>\<open>float(str(v))\<close> gives \<open>v\<close> back. Any
  other cell is its text.
\<close>

type_synonym bytes = string

datatype cell = CStr string | CInt int | CFloat pyfloat

record csv_file =
  fieldnames :: "string list option"
  records :: "cell list list"

record fs =
  images_dir :: "(string, bytes) fmap"
  images_output_dir :: "(string, bytes) fmap"
  json_dir :: "(string, bytes) fmap"
  csv_dir :: "(string, csv_file) fmap"
  sets_dir :: "(string, string) fmap"

text \<open>The tree before the first run: the source images, and empty output directories.\<close>

definition fresh :: "(string \<times> bytes) list \<Rightarrow> fs" where
  "fresh source =
     \<lparr>images_dir = fmap_of_list source, images_output_dir = fmempty, json_dir = fmempty,
      csv_dir = fmempty, sets_dir = fmempty\<rparr>"

definition exists :: "('k, 'v) fmap \<Rightarrow> 'k \<Rightarrow> bool" where
  "exists dir name = (fmlookup dir name \<noteq> None)"

text \<open>\<^verbatim>\<open>shutil.copy2(src, dst)\<close> of a file that exists.\<close>

definition copy2 :: "('k, 'v) fmap \<Rightarrow> 'k \<Rightarrow> ('k, 'v) fmap \<Rightarrow> 'k \<Rightarrow> ('k, 'v) fmap" where
  "copy2 src_dir src dst_dir dst =
     (case fmlookup src_dir src of
        None \<Rightarrow> dst_dir
      | Some content \<Rightarrow> fmupd dst content dst_dir)"

text \<open>
  A Python \<^verbatim>\<open>dict\<close> with its insertion order is an association list; \<^verbatim>\<open>d[k] = v\<close> is
  \<^const>\<open>AList.update\<close>, which keeps the place of a key already there.
\<close>

definition dict_of :: "('k \<times> 'v) list \<Rightarrow> ('k \<times> 'v) list" where
  "dict_of kvs = fold (\<lambda>(k, v) d. AList.update k v d) kvs []"

section \<open>The Reorganizer (\<^verbatim>\<open>scripts/reorganize_dataset.py\<close>)\<close>

text \<open>The rows that \<^verbatim>\<open>create_csv_annotation\<close> writes: the header, then one row for each box.\<close>

definition csv_document :: "box_row list \<Rightarrow> csv_file" where
  "csv_document boxes_data =
     \<lparr>fieldnames = Some [''#item'', ''x'', ''y'', ''width'', ''height'', ''label''],
      records = map (\<lambda>box. [CInt (int (item box)), CFloat (x box), CFloat (y box),
                             CFloat (width box), CFloat (height box), CInt (label box)])
                    boxes_data\<rparr>"

definition create_csv_annotation ::
  "string \<Rightarrow> box_row list \<Rightarrow> (string, csv_file) fmap \<Rightarrow> (string, csv_file) fmap" where
  "create_csv_annotation image_name boxes_data output_dir =
     fmupd (stem image_name @ ''.csv'') (csv_document boxes_data) output_dir"

text \<open>
  A wide-table CSV as \<^verbatim>\<open>csv.DictReader\<close> yields it: for each row the cells of the columns
  \<^verbatim>\<open>image_name\<close> and \<^verbatim>\<open>BoxesString\<close>, the second \<^const>\<open>None\<close> in a row that is too short.
  \<^const>\<open>None\<close> for the table is a file that cannot be read or has not both columns: the
  dict stays empty.
\<close>

type_synonym wide_csv = "(string \<times> string option) list option"

definition read_csv_data :: "wide_csv \<Rightarrow> (string \<times> string option) list" where
  "read_csv_data file =
     (case file of
        None \<Rightarrow> []
      | Some rows \<Rightarrow> fold (\<lambda>(image_name, boxes_string) data.
                           AList.update image_name boxes_string data) rows [])"

text \<open>The lines of a split file: the stems of the names in sorted order.\<close>

definition set_lines :: "string set \<Rightarrow> string list" where
  "set_lines names = map stem (sorted_list_of_set names)"

definition write_set :: "string \<Rightarrow> string set \<Rightarrow> (string, string) fmap \<Rightarrow> (string, string) fmap" where
  "write_set file names dir = fmupd file (concat (map (\<lambda>l. l @ [CHR 0x0A]) (set_lines names))) dir"

record run =
  files :: fs
  processed :: nat
  skipped :: nat

definition process_image :: "string \<times> string option \<Rightarrow> run \<Rightarrow> run" where
  "process_image entry st =
     (let image_name = fst entry;
          boxes_string = snd entry;
          image_stem = stem image_name;
          f = files st
      in if \<not> exists (images_dir f) image_name
         then st\<lparr>skipped := skipped st + 1\<rparr>
         else
           let f1 = (if \<not> exists (images_output_dir f) image_name
                     then f\<lparr>images_output_dir :=
                               copy2 (images_dir f) image_name (images_output_dir f) image_name\<rparr>
                     else f);
               f2 = (if exists (images_dir f1) (image_stem @ ''.json'')
                     then (if \<not> exists (json_dir f1) (image_stem @ ''.json'')
                           then f1\<lparr>json_dir :=
                                     copy2 (images_dir f1) (image_stem @ ''.json'')
                                           (json_dir f1) (image_stem @ ''.json'')\<rparr>
                           else f1)
                     else f1);
               boxes_data = parse_boxes_string boxes_string;
               f3 = f2\<lparr>csv_dir := create_csv_annotation image_name boxes_data (csv_dir f2)\<rparr>
           in st\<lparr>files := f3, processed := processed st + 1\<rparr>)"

definition write_sets ::
  "string set \<Rightarrow> string set \<Rightarrow> string set \<Rightarrow> (string, string) fmap \<Rightarrow> (string, string) fmap" where
  "write_sets train_images val_images test_images dir =
     (let all_images = train_images \<union> val_images \<union> test_images;
          d1 = write_set ''train.txt'' train_images dir;
          d2 = write_set ''val.txt'' val_images d1;
          d3 = write_set ''test.txt'' test_images d2;
          d4 = write_set ''all.txt'' all_images d3
      in write_set ''train_val.txt'' (train_images \<union> val_images) d4)"

text \<open>\<^verbatim>\<open>{**train_data, **val_data, **test_data}\<close>\<close>

definition merge_dicts :: "('k \<times> 'v) list list \<Rightarrow> ('k \<times> 'v) list" where
  "merge_dicts ds = dict_of (concat ds)"

definition main :: "wide_csv \<Rightarrow> wide_csv \<Rightarrow> wide_csv \<Rightarrow> fs \<Rightarrow> run" where
  "main train_csv val_csv test_csv f =
     (let train_data = read_csv_data train_csv;
          val_data = read_csv_data val_csv;
          test_data = read_csv_data test_csv;
          train_images = set (map fst train_data);
          val_images = set (map fst val_data);
          test_images = set (map fst test_data);
          f0 = f\<lparr>sets_dir := write_sets train_images val_images test_images (sets_dir f)\<rparr>;
          all_data = merge_dicts [train_data, val_data, test_data]
      in fold process_image all_data \<lparr>files = f0, processed = 0, skipped = 0\<rparr>)"

section \<open>The split-level converter (\<^verbatim>\<open>scripts/convert_to_coco.py\<close>)\<close>

definition read_split_list :: "(string, string) fmap \<Rightarrow> string \<Rightarrow> string list" where
  "read_split_list dir split_file =
     (case fmlookup dir split_file of
        None \<Rightarrow> []
      | Some text \<Rightarrow> filter (\<lambda>line. line \<noteq> []) (map strip (splitlines text)))"

text \<open>
  \<^verbatim>\<open>Image.open\<close> is a parameter: the width and height when the bytes decode as an image.
  A path with no file, or bytes that do not decode, give the default size.
\<close>

definition image_size ::
  "(bytes \<Rightarrow> (int \<times> int) option) \<Rightarrow> (string, bytes) fmap \<Rightarrow> string \<Rightarrow> int \<times> int" where
  "image_size image_open dir image_path =
     (case Option.bind (fmlookup dir image_path) image_open of
        Some (w, h) \<Rightarrow> (w, h)
      | None \<Rightarrow> (1024, 1024))"

record 'n labelled_box = "'n box_rec" +
  category_id :: int

text \<open>\<^verbatim>\<open>row[key] not in (None, "")\<close> and \<^verbatim>\<open>float(row[key])\<close> for a cell.\<close>

definition cell_float :: "cell \<Rightarrow> pyfloat option" where
  "cell_float c =
     (case c of
        CStr s \<Rightarrow> py_float s
      | CInt i \<Rightarrow> Some (Finite (of_int i))
      | CFloat f \<Rightarrow> Some f)"

fun get :: "(string \<times> cell option) list \<Rightarrow> string list \<Rightarrow> pyfloat option" where
  "get row [] = None"
| "get row (key # keys) =
     (case map_of row key of
        Some (Some c) \<Rightarrow>
          (if c \<noteq> CStr []
           then (case cell_float c of
                   Some v \<Rightarrow> Some v
                 | None \<Rightarrow> get row keys)
           else get row keys)
      | _ \<Rightarrow> get row keys)"

text \<open>
  One row of \<^verbatim>\<open>csv.DictReader\<close>: \<^verbatim>\<open>dict(zip(fieldnames, row))\<close>, the missing cells
  \<^verbatim>\<open>None\<close>. A record longer than the field names puts its rest under the key \<^verbatim>\<open>None\<close>, and
  \<^verbatim>\<open>k.lower()\<close> on that key raises \<^verbatim>\<open>AttributeError\<close>.
\<close>

definition dict_row :: "string list \<Rightarrow> cell list \<Rightarrow> (string \<times> cell option) list" where
  "dict_row names rec =
     dict_of (zip names (map Some rec) @ map (\<lambda>key. (key, None)) (drop (length rec) names))"

definition lower_keys :: "(string \<times> 'v) list \<Rightarrow> (string \<times> 'v) list" where
  "lower_keys d = dict_of (map (\<lambda>(k, v). (lower k, v)) d)"

text \<open>
  The body of the loop over the rows: \<^const>\<open>None\<close> when the row is skipped.
\<close>

definition parse_csv_row :: "(string \<times> cell option) list \<Rightarrow> py_error + pyfloat labelled_box option" where
  "parse_csv_row row =
     (let xv = get row [''x'', ''xc'', ''x_center''];
          yv = get row [''y'', ''yc'', ''y_center''];
          rv = get row [''r'', ''radius''];
          wv = get row [''w'', ''width'', ''dx''];
          hv = get row [''h'', ''height'', ''dy''];
          lv = get row [''label'', ''class'', ''category_id'']
      in case (xv, yv) of
           (Some x0, Some y0) \<Rightarrow>
             (case (case lv of Some l \<Rightarrow> float_to_int l | None \<Rightarrow> Inr 1) of
                Inl e \<Rightarrow> Inl e
              | Inr cat \<Rightarrow>
                  (case rv of
                     Some r \<Rightarrow>
                       Inr (Some \<lparr>bbox = [fsub x0 r, fsub y0 r,
                                          fmul (Finite 2) r, fmul (Finite 2) r],
                                  area = fmul (fmul (Finite 2) r) (fmul (Finite 2) r),
                                  category_id = cat\<rparr>)
                   | None \<Rightarrow>
                       (case (wv, hv) of
                          (Some w, Some h) \<Rightarrow>
                            Inr (Some \<lparr>bbox = [x0, y0, w, h], area = fmul w h,
                                       category_id = cat\<rparr>)
                        | _ \<Rightarrow> Inr None)))
         | _ \<Rightarrow> Inr None)"

fun parse_csv_rows ::
  "string list \<Rightarrow> cell list list \<Rightarrow> pyfloat labelled_box list \<Rightarrow> py_error + pyfloat labelled_box list" where
  "parse_csv_rows names [] boxes = Inr boxes"
| "parse_csv_rows names (rec # rest) boxes =
     (if rec = [] then parse_csv_rows names rest boxes
      else if length names < length rec then Inl AttributeError
      else (case parse_csv_row (lower_keys (dict_row names rec)) of
              Inl e \<Rightarrow> Inl e
            | Inr None \<Rightarrow> parse_csv_rows names rest boxes
            | Inr (Some box) \<Rightarrow> parse_csv_rows names rest (boxes @ [box])))"

definition parse_csv_boxes ::
  "(string, csv_file) fmap \<Rightarrow> string \<Rightarrow> py_error + pyfloat labelled_box list" where
  "parse_csv_boxes dir csv_path =
     (case fmlookup dir csv_path of
        None \<Rightarrow> Inr []
      | Some f \<Rightarrow>
          (case fieldnames f of
             None \<Rightarrow> Inr []
           | Some names \<Rightarrow> parse_csv_rows names (records f) []))"

record image_entry =
  img_id :: int
  img_file_name :: string
  img_width :: int
  img_height :: int

record 'n annotation =
  ann_id :: int
  ann_image_id :: int
  ann_category_id :: int
  ann_bbox :: "'n list"
  ann_area :: 'n

record category =
  cat_id :: int
  cat_name :: string
  cat_supercategory :: string

record collected =
  images :: "image_entry list"
  anns :: "pyfloat annotation list"
  image_id_counter :: int
  ann_id_counter :: int

text \<open>The file of a stem: \<^verbatim>\<open>.png\<close>, then \<^verbatim>\<open>.jpg\<close>, then \<^verbatim>\<open>.bmp\<close>.\<close>

definition find_image :: "(string, bytes) fmap \<Rightarrow> string \<Rightarrow> string option" where
  "find_image dir st =
     (if exists dir (st @ ''.png'') then Some (st @ ''.png'')
      else if exists dir (st @ ''.jpg'') then Some (st @ ''.jpg'')
      else if exists dir (st @ ''.bmp'') then Some (st @ ''.bmp'')
      else None)"

text \<open>The inner loop: one annotation for each box of the image.\<close>

fun add_annotations ::
  "int \<Rightarrow> pyfloat labelled_box list \<Rightarrow> pyfloat annotation list \<times> int \<Rightarrow> pyfloat annotation list \<times> int" where
  "add_annotations image_id [] (as, next_id) = (as, next_id)"
| "add_annotations image_id (box # rest) (as, next_id) =
     add_annotations image_id rest
       (as @ [\<lparr>ann_id = next_id, ann_image_id = image_id, ann_category_id = category_id box,
                ann_bbox = bbox box, ann_area = area box\<rparr>],
        next_id + 1)"

text \<open>
  The loop over the sorted stems. \<^verbatim>\<open>_image_size\<close> catches every exception itself, so the
  \<^verbatim>\<open>except\<close> clause around the registration of the image is never entered; an exception
  of \<^verbatim>\<open>_parse_csv_boxes\<close> is outside that clause and ends the run.
\<close>

fun collect_loop ::
  "(bytes \<Rightarrow> (int \<times> int) option) \<Rightarrow> string \<Rightarrow> (string, bytes) fmap \<Rightarrow> (string, csv_file) fmap \<Rightarrow>
   string list \<Rightarrow> collected \<Rightarrow> py_error + collected" where
  "collect_loop image_open root_name imgs csvs [] st = Inr st"
| "collect_loop image_open root_name imgs csvs (s # rest) st =
     (case find_image imgs s of
        None \<Rightarrow> collect_loop image_open root_name imgs csvs rest st
      | Some img_path \<Rightarrow>
          (let (w, h) = image_size image_open imgs img_path;
               images1 = images st @ [\<lparr>img_id = image_id_counter st,
                                        img_file_name = root_name @ ''/images/'' @ img_path,
                                        img_width = w, img_height = h\<rparr>]
           in case parse_csv_boxes csvs (s @ ''.csv'') of
                Inl e \<Rightarrow> Inl e
              | Inr boxes \<Rightarrow>
                  (let (anns1, next_ann) =
                         add_annotations (image_id_counter st) boxes (anns st, ann_id_counter st)
                   in collect_loop image_open root_name imgs csvs rest
                        \<lparr>images = images1, anns = anns1,
                         image_id_counter = image_id_counter st + 1,
                         ann_id_counter = next_ann\<rparr>)))"

text \<open>\<^verbatim>\<open>{p.stem for p in images_dir.glob("*" + ext)}\<close>\<close>

definition glob_stems :: "(string, bytes) fmap \<Rightarrow> string \<Rightarrow> string set" where
  "glob_stems dir ext = stem ` {name \<in> fset (fmdom dir). endswith name ext}"

definition image_stems :: "(string, bytes) fmap \<Rightarrow> (string, string) fmap \<Rightarrow> string \<Rightarrow> string set" where
  "image_stems imgs sets split =
     (let stems = set (read_split_list sets (split @ ''.txt''))
      in if stems = {}
         then glob_stems imgs ''.jpg'' \<union> glob_stems imgs ''.png'' \<union> glob_stems imgs ''.bmp''
         else stems)"

text \<open>
  \<^verbatim>\<open>_collect_annotations_for_split\<close> on the directories \<^verbatim>\<open>images\<close>, \<^verbatim>\<open>csv\<close> and \<^verbatim>\<open>sets\<close> of the
  category root, whose last path component is \<open>root_name\<close>.
\<close>

definition collect_annotations_for_split ::
  "(bytes \<Rightarrow> (int \<times> int) option) \<Rightarrow> string \<Rightarrow> (string, bytes) fmap \<Rightarrow> (string, csv_file) fmap \<Rightarrow>
   (string, string) fmap \<Rightarrow> string \<Rightarrow> string \<Rightarrow>
   py_error + image_entry list \<times> pyfloat annotation list \<times> category list" where
  "collect_annotations_for_split image_open root_name imgs csvs sets split category_name =
     (case collect_loop image_open root_name imgs csvs
             (sorted_list_of_set (image_stems imgs sets split))
             \<lparr>images = [], anns = [], image_id_counter = 1, ann_id_counter = 1\<rparr> of
        Inl e \<Rightarrow> Inl e
      | Inr st \<Rightarrow>
          Inr (images st, anns st,
               [\<lparr>cat_id = 1, cat_name = category_name, cat_supercategory = ''cereal''\<rparr>]))"

section \<open>The single-image converter (\<^verbatim>\<open>data/origin/generate_coco_annotations.py\<close>)\<close>

record image_entry_full = image_entry +
  img_size :: nat
  img_format :: string
  img_status :: string

record coco_data =
  coco_images :: "image_entry_full list"
  coco_annotations :: "int annotation list"
  coco_categories :: "category list"

text \<open>The loop over \<^verbatim>\<open>enumerate(boxes_data)\<close>; \<open>i\<close> is the index of the next box.\<close>

fun append_annotations ::
  "int \<Rightarrow> int \<Rightarrow> nat \<Rightarrow> int box_rec list \<Rightarrow> int annotation list \<Rightarrow> int annotation list" where
  "append_annotations image_id annotation_id i [] as = as"
| "append_annotations image_id annotation_id i (box_data # rest) as =
     append_annotations image_id annotation_id (Suc i) rest
       (as @ [\<lparr>ann_id = annotation_id + int i, ann_image_id = image_id, ann_category_id = 1,
                ann_bbox = bbox box_data, ann_area = area box_data\<rparr>])"

text \<open>
  The image file is \<^const>\<open>None\<close> when there is no file at \<^verbatim>\<open>image_path\<close>: \<^verbatim>\<open>Image.open\<close> fails
  and the size 512 by 512 is taken, then \<^verbatim>\<open>os.path.getsize\<close> raises.
\<close>

definition create_coco_annotation ::
  "(bytes \<Rightarrow> (int \<times> int) option) \<Rightarrow> bytes option \<Rightarrow> string \<Rightarrow> int box_rec list \<Rightarrow> int \<Rightarrow> int \<Rightarrow>
   py_error + coco_data" where
  "create_coco_annotation image_open image_file image_name boxes_data image_id annotation_id =
     (let (w, h) = (case Option.bind image_file image_open of
                      Some wh \<Rightarrow> wh
                    | None \<Rightarrow> (512, 512))
      in case image_file of
           None \<Rightarrow> Inl OSError
         | Some content \<Rightarrow>
             Inr \<lparr>coco_images = [\<lparr>img_id = image_id, img_file_name = image_name,
                                   img_width = w, img_height = h,
                                   img_size = length content, img_format = ''PNG'',
                                   img_status = ''success''\<rparr>],
                  coco_annotations = append_annotations image_id annotation_id 0 boxes_data [],
                  coco_categories = [\<lparr>cat_id = 1, cat_name = ''wheat_head'',
                                       cat_supercategory = ''broccoli''\<rparr>]\<rparr>)"

section \<open>Properties of the box-string parser\<close>

text \<open>Each loop only appends to the boxes collected so far.\<close>

lemma parse_box_append: "parse_box i seg acc = acc @ parse_box i seg []"
  by (simp add: parse_box_def split: option.splits list.splits)

lemma parse_boxes_loop_append:
  "parse_boxes_loop i segs acc = acc @ parse_boxes_loop i segs []"
proof (induction segs arbitrary: i acc)
  case Nil
  show ?case by simp
next
  case (Cons seg rest)
  have "parse_boxes_loop i (seg # rest) acc = parse_box i seg acc @ parse_boxes_loop (Suc i) rest []"
    using Cons.IH [of "Suc i" "parse_box i seg acc"] by simp
  also have "\<dots> = acc @ parse_box i seg [] @ parse_boxes_loop (Suc i) rest []"
    using parse_box_append [of i seg acc] by simp
  also have "\<dots> = acc @ parse_boxes_loop i (seg # rest) []"
    using Cons.IH [of "Suc i" "parse_box i seg []"] by simp
  finally show ?case .
qed

lemma parse_boxes_loop_segments:
  "parse_boxes_loop i (pre @ post) [] =
     parse_boxes_loop i pre [] @ parse_boxes_loop (i + length pre) post []"
proof (induction pre arbitrary: i)
  case Nil
  show ?case by simp
next
  case (Cons seg pre)
  have "parse_boxes_loop i ((seg # pre) @ post) [] =
          parse_box i seg [] @ parse_boxes_loop (Suc i) (pre @ post) []"
    using parse_boxes_loop_append [of "Suc i" "pre @ post" "parse_box i seg []"] by simp
  also have "\<dots> = parse_box i seg [] @ parse_boxes_loop (Suc i) pre []
                     @ parse_boxes_loop (Suc i + length pre) post []"
    using Cons.IH [of "Suc i"] by simp
  also have "\<dots> = parse_boxes_loop i (seg # pre) [] @ parse_boxes_loop (i + length (seg # pre)) post []"
    using parse_boxes_loop_append [of "Suc i" pre "parse_box i seg []"] by simp
  finally show ?case .
qed

lemma parse_boxes_string_loop:
  "parse_boxes_string (Some s) = parse_boxes_loop 0 (split_on CHR '';'' s) []"
  by (simp add: parse_boxes_string_def parse_box_def strip_def)

lemma parse_boxes_string_at:
  assumes "split_on CHR '';'' s = pre @ seg # post"
  shows "parse_boxes_string (Some s) =
           parse_boxes_loop 0 pre [] @ parse_box (length pre) seg []
           @ parse_boxes_loop (Suc (length pre)) post []"
proof -
  have "parse_boxes_loop (length pre) (seg # post) [] =
          parse_box (length pre) seg [] @ parse_boxes_loop (Suc (length pre)) post []"
    using parse_boxes_loop_append [of "Suc (length pre)" post "parse_box (length pre) seg []"]
    by simp
  then show ?thesis
    using assms parse_boxes_loop_segments [of 0 pre "seg # post"]
    by (simp add: parse_boxes_string_loop)
qed

lemma parse_box_coco_append: "parse_box_coco seg acc = acc @ parse_box_coco seg []"
  by (simp add: parse_box_coco_def split: option.splits list.splits)

lemma parse_boxes_loop_coco_append:
  "parse_boxes_loop_coco segs acc = acc @ parse_boxes_loop_coco segs []"
proof (induction segs arbitrary: acc)
  case Nil
  show ?case by simp
next
  case (Cons seg rest)
  have "parse_boxes_loop_coco (seg # rest) acc = parse_box_coco seg acc @ parse_boxes_loop_coco rest []"
    using Cons.IH [of "parse_box_coco seg acc"] by simp
  also have "\<dots> = acc @ parse_box_coco seg [] @ parse_boxes_loop_coco rest []"
    using parse_box_coco_append [of seg acc] by simp
  also have "\<dots> = acc @ parse_boxes_loop_coco (seg # rest) []"
    using Cons.IH [of "parse_box_coco seg []"] by simp
  finally show ?case .
qed

lemma parse_boxes_loop_coco_segments:
  "parse_boxes_loop_coco (pre @ post) [] =
     parse_boxes_loop_coco pre [] @ parse_boxes_loop_coco post []"
proof (induction pre)
  case Nil
  show ?case by simp
next
  case (Cons seg pre)
  have "parse_boxes_loop_coco ((seg # pre) @ post) [] =
          parse_box_coco seg [] @ parse_boxes_loop_coco (pre @ post) []"
    using parse_boxes_loop_coco_append [of "pre @ post" "parse_box_coco seg []"] by simp
  also have "\<dots> = parse_box_coco seg [] @ parse_boxes_loop_coco pre [] @ parse_boxes_loop_coco post []"
    using Cons.IH by simp
  also have "\<dots> = parse_boxes_loop_coco (seg # pre) [] @ parse_boxes_loop_coco post []"
    using parse_boxes_loop_coco_append [of pre "parse_box_coco seg []"] by simp
  finally show ?case .
qed

lemma parse_boxes_string_coco_loop:
  "parse_boxes_string_coco (Some s) = parse_boxes_loop_coco (split_on CHR '';'' s) []"
  by (simp add: parse_boxes_string_coco_def parse_box_coco_def strip_def)

lemma parse_boxes_string_coco_at:
  assumes "split_on CHR '';'' s = pre @ seg # post"
  shows "parse_boxes_string_coco (Some s) =
           parse_boxes_loop_coco pre [] @ parse_box_coco seg [] @ parse_boxes_loop_coco post []"
proof -
  have "parse_boxes_loop_coco (seg # post) [] = parse_box_coco seg [] @ parse_boxes_loop_coco post []"
    using parse_boxes_loop_coco_append [of post "parse_box_coco seg []"] by simp
  then show ?thesis
    using assms parse_boxes_loop_coco_segments [of pre "seg # post"]
    by (simp add: parse_boxes_string_coco_loop)
qed

lemma those_length: "those xs = Some ys \<Longrightarrow> length ys = length xs"
  by (induction xs arbitrary: ys) (auto split: option.splits)

lemma parse_box_coco_dropped:
  assumes "those (map py_int (split_ws (strip seg))) = None \<or> length (split_ws (strip seg)) \<noteq> 4"
  shows "parse_box_coco seg boxes = boxes"
proof (cases "those (map py_int (split_ws (strip seg)))")
  case None
  then show ?thesis by (simp add: parse_box_coco_def)
next
  case (Some coords)
  have "length coords = length (split_ws (strip seg))"
    using those_length [OF Some] by simp
  with assms Some have "length coords \<noteq> 4" by simp
  then show ?thesis using Some
    by (auto simp: parse_box_coco_def split: list.splits)
qed

lemma parse_box_dropped:
  assumes "those (map py_float (split_ws (strip seg))) = None \<or> length (split_ws (strip seg)) \<noteq> 4"
  shows "parse_box i seg boxes = boxes"
proof (cases "those (map py_float (split_ws (strip seg)))")
  case None
  then show ?thesis by (simp add: parse_box_def)
next
  case (Some coords)
  have "length coords = length (split_ws (strip seg))"
    using those_length [OF Some] by simp
  with assms Some have "length coords \<noteq> 4" by simp
  then show ?thesis using Some
    by (auto simp: parse_box_def split: list.splits)
qed

text \<open>
  Claim C5. The box-string parser never fails. Both parsers return the empty list for
  \<^verbatim>\<open>None\<close> and for the empty string. A segment whose tokens are not all accepted by the
  conversion, or that has not exactly 4 tokens, adds nothing, and the segments before
  and after it are parsed as they are without it (in the Reorganizer with their own
  indices). The string \<^verbatim>\<open>10 10 50 40;bad;20 20 30 30\<close> gives exactly 2 boxes.
\<close>

theorem parse_boxes_string_never_fails:
  "parse_boxes_string None = [] \<and> parse_boxes_string (Some []) = [] \<and>
   parse_boxes_string_coco None = [] \<and> parse_boxes_string_coco (Some []) = [] \<and>
   (split_on CHR '';'' s = pre @ seg # post \<and>
    (those (map py_float (split_ws (strip seg))) = None \<or> length (split_ws (strip seg)) \<noteq> 4)
    \<longrightarrow> parse_boxes_string (Some s) =
          parse_boxes_loop 0 pre [] @ parse_boxes_loop (Suc (length pre)) post []) \<and>
   (split_on CHR '';'' s = pre @ seg # post \<and>
    (those (map py_int (split_ws (strip seg))) = None \<or> length (split_ws (strip seg)) \<noteq> 4)
    \<longrightarrow> parse_boxes_string_coco (Some s) =
          parse_boxes_loop_coco pre [] @ parse_boxes_loop_coco post []) \<and>
   length (parse_boxes_string (Some ''10 10 50 40;bad;20 20 30 30'')) = 2 \<and>
   length (parse_boxes_string_coco (Some ''10 10 50 40;bad;20 20 30 30'')) = 2"
proof -
  have a: "parse_boxes_string None = [] \<and> parse_boxes_string (Some []) = []"
    by (simp add: parse_boxes_string_def)
  have b: "parse_boxes_string_coco None = [] \<and> parse_boxes_string_coco (Some []) = []"
    by (simp add: parse_boxes_string_coco_def)
  have c: "length (parse_boxes_string (Some ''10 10 50 40;bad;20 20 30 30'')) = 2"
    by code_simp
  have d: "length (parse_boxes_string_coco (Some ''10 10 50 40;bad;20 20 30 30'')) = 2"
    by code_simp
  show ?thesis
    using a b c d parse_boxes_string_at [of s pre seg post] parse_box_dropped [of seg "length pre" "[]"]
      parse_boxes_string_coco_at [of s pre seg post] parse_box_coco_dropped [of seg "[]"]
    by simp
qed

theorem parse_boxes_string_never_fails_witness:
  "split_on CHR '';'' ''10 10 50 40;bad;20 20 30 30'' = [''10 10 50 40''] @ ''bad'' # [''20 20 30 30''] \<and>
   those (map py_float (split_ws (strip ''bad''))) = None \<and>
   those (map py_int (split_ws (strip ''bad''))) = None \<and>
   parse_boxes_string (Some ''10 10 50 40;bad;20 20 30 30'') =
     parse_boxes_loop 0 [''10 10 50 40''] [] @ parse_boxes_loop 2 [''20 20 30 30''] [] \<and>
   parse_boxes_string_coco (Some ''10 10 50 40;bad;20 20 30 30'') =
     parse_boxes_loop_coco [''10 10 50 40''] [] @ parse_boxes_loop_coco [''20 20 30 30''] []"
proof -
  have h1: "split_on CHR '';'' ''10 10 50 40;bad;20 20 30 30'' = [''10 10 50 40''] @ ''bad'' # [''20 20 30 30'']"
    by code_simp
  have h2: "those (map py_float (split_ws (strip ''bad''))) = None"
    by code_simp
  have h3: "those (map py_int (split_ws (strip ''bad''))) = None"
    by code_simp
  show ?thesis
    using h1 h2 h3
      parse_boxes_string_never_fails [of "''10 10 50 40;bad;20 20 30 30''" "[''10 10 50 40'']" "''bad''" "[''20 20 30 30'']"]
    by (simp add: numeral_2_eq_2)
qed

lemma split_ws_tokens_nonempty: "split_ws (strip seg) = t # ts \<Longrightarrow> strip seg \<noteq> []"
  by (cases "strip seg") (auto simp: split_ws_def)

lemma parse_box_accepts:
  assumes "split_ws (strip seg) = [t1, t2, t3, t4]"
      and "py_float t1 = Some x1" "py_float t2 = Some y1"
      and "py_float t3 = Some x2" "py_float t4 = Some y2"
  shows "parse_box i seg boxes =
           boxes @ [\<lparr>item = i, x = x1, y = y1, width = fsub x2 x1, height = fsub y2 y1, label = 1\<rparr>]"
  using assms split_ws_tokens_nonempty [OF assms(1)]
  by (simp add: parse_box_def)

lemma parse_box_coco_accepts:
  assumes "split_ws (strip seg) = [t1, t2, t3, t4]"
      and "py_int t1 = Some x1" "py_int t2 = Some y1"
      and "py_int t3 = Some x2" "py_int t4 = Some y2"
  shows "parse_box_coco seg boxes =
           boxes @ [\<lparr>bbox = [x1, y1, x2 - x1, y2 - y1], area = (x2 - x1) * (y2 - y1)\<rparr>]"
  using assms split_ws_tokens_nonempty [OF assms(1)]
  by (simp add: parse_box_coco_def)

text \<open>
  Claim C1, as the code has it. Take a segment of a box string with exactly 4
  whitespace-separated tokens. If \<^verbatim>\<open>float\<close> accepts the four tokens, the parser of the
  Reorganizer emits for it exactly one record, with \<open>x = x1\<close>, \<open>y = y1\<close>,
  \<open>width = x2 - x1\<close> and \<open>height = y2 - y1\<close> (that record has no area). If \<^verbatim>\<open>int\<close>
  accepts the four tokens, the parser of the single-image converter emits for it
  exactly one record, with \<open>bbox = [x1, y1, x2 - x1, y2 - y1]\<close> and
  \<open>area = (x2 - x1) * (y2 - y1)\<close>. Neither checks the order of the coordinates or the
  sign of the sizes. The boxes of the other segments are not affected.
\<close>

theorem box_of_segment:
  assumes "split_on CHR '';'' s = pre @ seg # post"
      and "split_ws (strip seg) = [t1, t2, t3, t4]"
  shows "(py_float t1 = Some x1 \<and> py_float t2 = Some y1 \<and> py_float t3 = Some x2 \<and> py_float t4 = Some y2
          \<longrightarrow> parse_boxes_string (Some s) =
                parse_boxes_loop 0 pre []
                @ [\<lparr>item = length pre, x = x1, y = y1,
                     width = fsub x2 x1, height = fsub y2 y1, label = 1\<rparr>]
                @ parse_boxes_loop (Suc (length pre)) post []) \<and>
         (py_int t1 = Some a1 \<and> py_int t2 = Some b1 \<and> py_int t3 = Some a2 \<and> py_int t4 = Some b2
          \<longrightarrow> parse_boxes_string_coco (Some s) =
                parse_boxes_loop_coco pre []
                @ [\<lparr>bbox = [a1, b1, a2 - a1, b2 - b1], area = (a2 - a1) * (b2 - b1)\<rparr>]
                @ parse_boxes_loop_coco post [])"
  using parse_boxes_string_at [OF assms(1)] parse_boxes_string_coco_at [OF assms(1)]
    parse_box_accepts [OF assms(2), of x1 y1 x2 y2 "length pre" "[]"]
    parse_box_coco_accepts [OF assms(2), of a1 b1 a2 b2 "[]"]
  by simp

text \<open>A segment with swapped corners is accepted by both parsers, with negative sizes.\<close>

theorem box_of_segment_witness:
  "split_on CHR '';'' ''1 2 4 8;30 20 10 5'' = [''1 2 4 8''] @ ''30 20 10 5'' # [] \<and>
   split_ws (strip ''30 20 10 5'') = [''30'', ''20'', ''10'', ''5''] \<and>
   map py_float [''30'', ''20'', ''10'', ''5''] = map (Some \<circ> Finite) [30, 20, 10, 5] \<and>
   map py_int [''30'', ''20'', ''10'', ''5''] = map Some [30, 20, 10, 5] \<and>
   parse_boxes_string (Some ''1 2 4 8;30 20 10 5'') =
     parse_boxes_loop 0 [''1 2 4 8''] []
     @ [\<lparr>item = 1, x = Finite 30, y = Finite 20,
          width = Finite (- 20), height = Finite (- 15), label = 1\<rparr>] \<and>
   parse_boxes_string_coco (Some ''1 2 4 8;30 20 10 5'') =
     parse_boxes_loop_coco [''1 2 4 8''] []
     @ [\<lparr>bbox = [30, 20, - 20, - 15], area = 300\<rparr>]"
proof -
  have h1: "split_on CHR '';'' ''1 2 4 8;30 20 10 5'' = [''1 2 4 8''] @ ''30 20 10 5'' # []"
    by code_simp
  have h2: "split_ws (strip ''30 20 10 5'') = [''30'', ''20'', ''10'', ''5'']"
    by code_simp
  have h3: "py_float ''30'' = Some (Finite 30) \<and> py_float ''20'' = Some (Finite 20) \<and>
            py_float ''10'' = Some (Finite 10) \<and> py_float ''5'' = Some (Finite 5)"
    by code_simp
  have h4: "py_int ''30'' = Some 30 \<and> py_int ''20'' = Some 20 \<and>
            py_int ''10'' = Some 10 \<and> py_int ''5'' = Some 5"
    by code_simp
  show ?thesis
    using h1 h2 h3 h4
      box_of_segment [OF h1 h2, of "Finite 30" "Finite 20" "Finite 10" "Finite 5" 30 20 10 5]
    by simp
qed

text \<open>
  Claim C1 as stated fails for the parser of the single-image converter: the four
  tokens of \<^verbatim>\<open>1.5 2 3 4\<close> are numeric, and that parser emits no box for them.
\<close>

theorem int_parser_rejects_decimal_point:
  "split_ws (strip ''1.5 2 3 4'') = [''1.5'', ''2'', ''3'', ''4''] \<and>
   map py_float [''1.5'', ''2'', ''3'', ''4''] =
     [Some (Finite (3 / 2)), Some (Finite 2), Some (Finite 3), Some (Finite 4)] \<and>
   parse_boxes_string_coco (Some ''1.5 2 3 4'') = []"
  by code_simp














lemma parse_box_items:
  "map item (parse_box i seg []) = (if accepted seg then [i] else [])"
proof (cases "those (map py_float (split_ws (strip seg)))")
  case None
  then show ?thesis by (simp add: parse_box_def accepted_def)
next
  case (Some coords)
  show ?thesis
  proof (cases "strip seg = []")
    case True
    then show ?thesis using Some by (auto simp: parse_box_def accepted_def split_ws_def)
  next
    case False
    then show ?thesis using Some
      by (auto simp: parse_box_def accepted_def split: list.splits)
  qed
qed

lemma parse_box_labels:
  "map label (parse_box i seg []) = replicate (length (parse_box i seg [])) 1"
  by (simp add: parse_box_def split: option.splits list.splits)

lemma parse_boxes_loop_items:
  "map item (parse_boxes_loop i segs []) =
     map fst (filter (\<lambda>(k, seg). accepted seg) (enumerate i segs))"
proof (induction segs arbitrary: i)
  case Nil
  show ?case by simp
next
  case (Cons seg rest)
  have "parse_boxes_loop i (seg # rest) [] = parse_box i seg [] @ parse_boxes_loop (Suc i) rest []"
    using parse_boxes_loop_append [of "Suc i" rest "parse_box i seg []"] by simp
  then show ?case
    using Cons.IH [of "Suc i"] parse_box_items [of i seg] by simp
qed

lemma parse_boxes_loop_labels:
  "map label (parse_boxes_loop i segs []) = replicate (length (parse_boxes_loop i segs [])) 1"
proof (induction segs arbitrary: i)
  case Nil
  show ?case by simp
next
  case (Cons seg rest)
  have "parse_boxes_loop i (seg # rest) [] = parse_box i seg [] @ parse_boxes_loop (Suc i) rest []"
    using parse_boxes_loop_append [of "Suc i" rest "parse_box i seg []"] by simp
  then show ?case
    using Cons.IH [of "Suc i"] parse_box_labels [of i seg] by (simp add: replicate_add)
qed

lemma enumerate_fst_increasing: "sorted_wrt (<) (map fst (filter P (enumerate i xs)))"
proof -
  have "sorted_wrt (\<lambda>a b. fst a < fst b) (enumerate i xs)"
    by (simp add: sorted_wrt_iff_nth_less nth_enumerate_eq)
  then have "sorted_wrt (\<lambda>a b. fst a < fst b) (filter P (enumerate i xs))"
    by (rule sorted_wrt_filter)
  then show ?thesis
    by (simp add: sorted_wrt_map)
qed

lemma enumerate_all_accepted:
  "list_all accepted segs \<Longrightarrow> map fst (filter (\<lambda>(k, seg). accepted seg) (enumerate i segs)) = [i..<i + length segs]"
  by (induction segs arbitrary: i) (auto simp: upt_rec)

lemma process_image_csv:
  assumes "exists (images_dir (files st)) image_name"
  shows "fmlookup (csv_dir (files (process_image (image_name, boxes_string) st)))
           (stem image_name @ ''.csv'') =
         Some \<lparr>fieldnames = Some [''#item'', ''x'', ''y'', ''width'', ''height'', ''label''],
               records = map (\<lambda>box. [CInt (int (item box)), CFloat (x box), CFloat (y box),
                                      CFloat (width box), CFloat (height box), CInt (label box)])
                             (parse_boxes_string boxes_string)\<rparr>"
  using assms
  by (simp add: process_image_def Let_def create_csv_annotation_def csv_document_def)

text \<open>
  Claim C3, as the code has it. The per-image CSV that the Reorganizer writes for an
  image has the header \<^verbatim>\<open>#item,x,y,width,height,label\<close> and one row for each accepted
  segment of the box string; the label column is always 1; the item column of a row is
  the 0-based index of its segment among all the segments of the box string, the blank
  and the dropped ones counted. The item values are therefore strictly increasing, and
  they are 0, 1, 2, ... when every segment is accepted.
\<close>

theorem per_image_csv_rows:
  assumes "exists (images_dir (files st)) image_name"
  shows "\<exists>rows.
           fmlookup (csv_dir (files (process_image (image_name, Some s) st)))
             (stem image_name @ ''.csv'') =
             Some \<lparr>fieldnames = Some [''#item'', ''x'', ''y'', ''width'', ''height'', ''label''],
                   records = rows\<rparr> \<and>
           list_all (\<lambda>row. length row = 6) rows \<and>
           map (\<lambda>row. row ! 5) rows = replicate (length rows) (CInt 1) \<and>
           map (\<lambda>row. row ! 0) rows =
             map (\<lambda>(k, seg). CInt (int k))
                 (filter (\<lambda>(k, seg). accepted seg) (enumerate 0 (split_on CHR '';'' s))) \<and>
           sorted_wrt (<) (map fst (filter (\<lambda>(k, seg). accepted seg)
                                      (enumerate 0 (split_on CHR '';'' s)))) \<and>
           (list_all accepted (split_on CHR '';'' s) \<longrightarrow>
              map (\<lambda>row. row ! 0) rows = map (\<lambda>k. CInt (int k)) [0..<length rows])"
proof -
  let ?boxes = "parse_boxes_string (Some s)"
  let ?rows = "map (\<lambda>box. [CInt (int (item box)), CFloat (x box), CFloat (y box),
                            CFloat (width box), CFloat (height box), CInt (label box)]) ?boxes"
  let ?kept = "filter (\<lambda>(k, seg). accepted seg) (enumerate 0 (split_on CHR '';'' s))"
  have items: "map item ?boxes = map fst ?kept"
    using parse_boxes_loop_items [of 0 "split_on CHR '';'' s"]
    by (simp add: parse_boxes_string_loop)
  have labels: "map label ?boxes = replicate (length ?boxes) 1"
    using parse_boxes_loop_labels [of 0 "split_on CHR '';'' s"]
    by (simp add: parse_boxes_string_loop)
  have r0: "map (\<lambda>row. row ! 0) ?rows = map (\<lambda>k. CInt (int k)) (map item ?boxes)"
    by (simp add: comp_def)
  have r5: "map (\<lambda>row. row ! 5) ?rows = map CInt (map label ?boxes)"
    by (simp add: comp_def)
  have c1: "list_all (\<lambda>row. length row = 6) ?rows"
    by (simp add: list_all_iff)
  have c2: "map (\<lambda>row. row ! 5) ?rows = replicate (length ?rows) (CInt 1)"
    using r5 labels by (simp add: map_replicate)
  have c3: "map (\<lambda>row. row ! 0) ?rows = map (\<lambda>(k, seg). CInt (int k)) ?kept"
    using r0 items by (simp add: comp_def case_prod_beta)
  have c4: "sorted_wrt (<) (map fst ?kept)"
    by (rule enumerate_fst_increasing)
  have len: "length ?rows = length ?kept"
    using arg_cong [OF items, of length] by simp
  have c5: "list_all accepted (split_on CHR '';'' s) \<longrightarrow>
              map (\<lambda>row. row ! 0) ?rows = map (\<lambda>k. CInt (int k)) [0..<length ?rows]"
  proof
    assume all: "list_all accepted (split_on CHR '';'' s)"
    have k: "map fst ?kept = [0..<length (split_on CHR '';'' s)]"
      using enumerate_all_accepted [OF all, of 0] by simp
    have "length ?kept = length (split_on CHR '';'' s)"
      using arg_cong [OF k, of length] by simp
    then show "map (\<lambda>row. row ! 0) ?rows = map (\<lambda>k. CInt (int k)) [0..<length ?rows]"
      using r0 items k len by simp
  qed
  show ?thesis
    using process_image_csv [OF assms, of "Some s"] c1 c2 c3 c4 c5 by blast
qed


theorem per_image_csv_rows_witness:
  "exists (images_dir (files \<lparr>files = fresh [(''a.png'', ''png'')], processed = 0, skipped = 0\<rparr>)) ''a.png'' \<and>
   list_all accepted (split_on CHR '';'' ''10 10 50 40;20 20 30 30'') \<and>
   fmlookup (csv_dir (files (process_image (''a.png'', Some ''10 10 50 40;20 20 30 30'')
                               \<lparr>files = fresh [(''a.png'', ''png'')], processed = 0, skipped = 0\<rparr>)))
     ''a.csv'' =
     Some \<lparr>fieldnames = Some [''#item'', ''x'', ''y'', ''width'', ''height'', ''label''],
           records = [[CInt 0, CFloat (Finite 10), CFloat (Finite 10),
                       CFloat (Finite 40), CFloat (Finite 30), CInt 1],
                      [CInt 1, CFloat (Finite 20), CFloat (Finite 20),
                       CFloat (Finite 10), CFloat (Finite 10), CInt 1]]\<rparr>"
proof -
  have h1: "exists (images_dir (files \<lparr>files = fresh [(''a.png'', ''png'')], processed = 0, skipped = 0\<rparr>)) ''a.png''"
    by (simp add: fresh_def exists_def)
  have h2: "list_all accepted (split_on CHR '';'' ''10 10 50 40;20 20 30 30'')"
    by code_simp
  have h3: "parse_boxes_string (Some ''10 10 50 40;20 20 30 30'') =
              [\<lparr>item = 0, x = Finite 10, y = Finite 10, width = Finite 40, height = Finite 30, label = 1\<rparr>,
               \<lparr>item = 1, x = Finite 20, y = Finite 20, width = Finite 10, height = Finite 10, label = 1\<rparr>]"
    by code_simp
  have h4: "stem ''a.png'' = ''a''"
    by code_simp
  show ?thesis
    using h1 h2 h4 per_image_csv_rows [OF h1, of "''10 10 50 40;20 20 30 30''"]
      process_image_csv [OF h1, of "Some ''10 10 50 40;20 20 30 30''"]
    by (simp add: h3)
qed

text \<open>
  Claim C3 as stated fails: for the box string \<^verbatim>\<open>10 10 50 40;bad;20 20 30 30\<close> the second
  row written has the item 2, not 1.
\<close>

theorem item_skips_dropped_segment:
  "fmlookup (csv_dir (files (process_image (''a.png'', Some ''10 10 50 40;bad;20 20 30 30'')
                               \<lparr>files = fresh [(''a.png'', ''png'')], processed = 0, skipped = 0\<rparr>)))
     ''a.csv'' =
     Some \<lparr>fieldnames = Some [''#item'', ''x'', ''y'', ''width'', ''height'', ''label''],
           records = [[CInt 0, CFloat (Finite 10), CFloat (Finite 10),
                       CFloat (Finite 40), CFloat (Finite 30), CInt 1],
                      [CInt 2, CFloat (Finite 20), CFloat (Finite 20),
                       CFloat (Finite 10), CFloat (Finite 10), CInt 1]]\<rparr>"
proof -
  have h1: "exists (images_dir (files \<lparr>files = fresh [(''a.png'', ''png'')], processed = 0, skipped = 0\<rparr>)) ''a.png''"
    by (simp add: fresh_def exists_def)
  have h3: "parse_boxes_string (Some ''10 10 50 40;bad;20 20 30 30'') =
              [\<lparr>item = 0, x = Finite 10, y = Finite 10, width = Finite 40, height = Finite 30, label = 1\<rparr>,
               \<lparr>item = 2, x = Finite 20, y = Finite 20, width = Finite 10, height = Finite 10, label = 1\<rparr>]"
    by code_simp
  have h4: "stem ''a.png'' = ''a''"
    by code_simp
  show ?thesis
    using h4 process_image_csv [OF h1, of "Some ''10 10 50 40;bad;20 20 30 30''"]
    by (simp add: h3)
qed

section \<open>Properties of the Reorganizer\<close>

lemma process_image_sets: "sets_dir (files (process_image entry st)) = sets_dir (files st)"
  by (simp add: process_image_def Let_def)

lemma fold_process_image_sets:
  "sets_dir (files (fold process_image entries st)) = sets_dir (files st)"
  by (induction entries arbitrary: st) (simp_all add: process_image_sets)

lemma main_sets:
  "sets_dir (files (main train_csv val_csv test_csv f)) =
     write_sets (set (map fst (read_csv_data train_csv))) (set (map fst (read_csv_data val_csv)))
                (set (map fst (read_csv_data test_csv))) (sets_dir f)"
  by (simp add: main_def Let_def fold_process_image_sets)



lemma fold_update_keys:
  "fst ` set (fold (\<lambda>(k, v) d. AList.update k v d) rows acc) = fst ` set acc \<union> fst ` set rows"
proof (induction rows arbitrary: acc)
  case Nil
  show ?case by simp
next
  case (Cons row rows)
  obtain k v where row: "row = (k, v)" by (cases row)
  have "fst ` set (fold (\<lambda>(k, v) d. AList.update k v d) (row # rows) acc) =
          fst ` set (AList.update k v acc) \<union> fst ` set rows"
    using Cons.IH [of "AList.update k v acc"] row by simp
  also have "\<dots> = fst ` set acc \<union> fst ` set (row # rows)"
    using row by (simp add: dom_update)
  finally show ?case .
qed

lemma read_csv_data_keys:
  "set (map fst (read_csv_data file)) = (case file of None \<Rightarrow> {} | Some rows \<Rightarrow> fst ` set rows)"
  by (simp add: read_csv_data_def fold_update_keys split: option.splits)



section \<open>Properties of the converters\<close>

lemma add_annotations_append:
  "add_annotations image_id boxes (as, n) =
     (as @ map (\<lambda>(k, box). \<lparr>ann_id = n + int k, ann_image_id = image_id,
                              ann_category_id = category_id box,
                              ann_bbox = bbox box, ann_area = area box\<rparr>)
               (enumerate 0 boxes),
      n + int (length boxes))"
proof (induction boxes arbitrary: as n)
  case Nil
  show ?case by simp
next
  case (Cons box rest)
  have sh: "enumerate (Suc 0) rest = map (\<lambda>(k, b). (Suc k, b)) (enumerate 0 rest)"
    by (simp add: enumerate_Suc_eq map_prod_def case_prod_beta apfst_def)
  show ?case
    using Cons.IH by (simp add: sh comp_def case_prod_beta algebra_simps)
qed

text \<open>One step of the loop over the stems, for a stem whose image file is found.\<close>

lemma collect_loop_found:
  assumes "find_image imgs s = Some p"
      and "collect_loop io rn imgs csvs (s # rest) st = Inr st'"
  shows "\<exists>boxes. parse_csv_boxes csvs (s @ ''.csv'') = Inr boxes \<and>
           collect_loop io rn imgs csvs rest
             \<lparr>images = images st @ [\<lparr>img_id = image_id_counter st,
                                      img_file_name = rn @ ''/images/'' @ p,
                                      img_width = fst (image_size io imgs p),
                                      img_height = snd (image_size io imgs p)\<rparr>],
              anns = fst (add_annotations (image_id_counter st) boxes (anns st, ann_id_counter st)),
              image_id_counter = image_id_counter st + 1,
              ann_id_counter = snd (add_annotations (image_id_counter st) boxes (anns st, ann_id_counter st))\<rparr>
           = Inr st'"
  using assms
  by (cases "parse_csv_boxes csvs (s @ ''.csv'')")
     (auto simp: Let_def case_prod_beta)

lemma collect_loop_not_found:
  assumes "find_image imgs s = None"
  shows "collect_loop io rn imgs csvs (s # rest) st = collect_loop io rn imgs csvs rest st"
  using assms by simp

text \<open>Every annotation refers to a registered image: an invariant of the loop.\<close>

lemma collect_loop_refs:
  assumes "collect_loop io rn imgs csvs ss st = Inr st'"
      and "ann_image_id ` set (anns st) \<subseteq> img_id ` set (images st)"
  shows "ann_image_id ` set (anns st') \<subseteq> img_id ` set (images st')"
  using assms
proof (induction ss arbitrary: st)
  case Nil
  then show ?case by simp
next
  case (Cons s rest)
  show ?case
  proof (cases "find_image imgs s")
    case None
    then show ?thesis
      using Cons.IH [of st] Cons.prems by simp
  next
    case (Some p)
    obtain boxes st1 where
      st1: "st1 = \<lparr>images = images st @ [\<lparr>img_id = image_id_counter st,
                                      img_file_name = rn @ ''/images/'' @ p,
                                      img_width = fst (image_size io imgs p),
                                      img_height = snd (image_size io imgs p)\<rparr>],
              anns = fst (add_annotations (image_id_counter st) boxes (anns st, ann_id_counter st)),
              image_id_counter = image_id_counter st + 1,
              ann_id_counter = snd (add_annotations (image_id_counter st) boxes (anns st, ann_id_counter st))\<rparr>"
      and run: "collect_loop io rn imgs csvs rest st1 = Inr st'"
      using collect_loop_found [OF Some Cons.prems(1)] by blast
    have "ann_image_id ` set (anns st1) \<subseteq> img_id ` set (images st1)"
      using Cons.prems(2) by (auto simp: st1 add_annotations_append)
    then show ?thesis
      using Cons.IH [OF run] by simp
  qed
qed

lemma append_annotations_append:
  "append_annotations image_id annotation_id i boxes as =
     as @ map (\<lambda>(k, box). \<lparr>ann_id = annotation_id + int k, ann_image_id = image_id,
                             ann_category_id = 1,
                             ann_bbox = bbox box, ann_area = area box\<rparr>)
              (enumerate i boxes)"
  by (induction boxes arbitrary: i as) simp_all

text \<open>
  Claim C7. In a document of either converter, the \<open>image_id\<close> of every annotation is
  the \<open>id\<close> of an entry of the images of the document.
\<close>

theorem annotations_refer_to_images:
  "(collect_annotations_for_split image_open root_name imgs csvs sets split category_name
      = Inr (ims, as, cats)
    \<longrightarrow> ann_image_id ` set as \<subseteq> img_id ` set ims) \<and>
   (create_coco_annotation image_open image_file image_name boxes_data image_id annotation_id
      = Inr doc
    \<longrightarrow> ann_image_id ` set (coco_annotations doc) \<subseteq> img_id ` set (coco_images doc))"
proof
  show "collect_annotations_for_split image_open root_name imgs csvs sets split category_name
          = Inr (ims, as, cats)
        \<longrightarrow> ann_image_id ` set as \<subseteq> img_id ` set ims"
  proof
    assume a: "collect_annotations_for_split image_open root_name imgs csvs sets split category_name
                 = Inr (ims, as, cats)"
    obtain st' where
      run: "collect_loop image_open root_name imgs csvs
              (sorted_list_of_set (image_stems imgs sets split))
              \<lparr>images = [], anns = [], image_id_counter = 1, ann_id_counter = 1\<rparr> = Inr st'"
      and res: "ims = images st'" "as = anns st'"
      using a by (auto simp: collect_annotations_for_split_def split: sum.splits)
    show "ann_image_id ` set as \<subseteq> img_id ` set ims"
      using collect_loop_refs [OF run] res by simp
  qed
next
  show "create_coco_annotation image_open image_file image_name boxes_data image_id annotation_id
          = Inr doc
        \<longrightarrow> ann_image_id ` set (coco_annotations doc) \<subseteq> img_id ` set (coco_images doc)"
    by (auto simp: create_coco_annotation_def append_annotations_append case_prod_beta
             split: option.splits)
qed


theorem annotations_refer_to_images_witness:
  "collect_annotations_for_split (\<lambda>b. None) ''wheat_heads''
     (fmap_of_list [(''a.png'', ''png'')])
     (fmap_of_list [(''a.csv'', \<lparr>fieldnames = Some [''x'', ''y'', ''r''],
                                 records = [[CStr ''5'', CStr ''5'', CStr ''3'']]\<rparr>)])
     fmempty ''train'' ''wheat_head'' =
     Inr ([\<lparr>img_id = 1, img_file_name = ''wheat_heads/images/a.png'',
            img_width = 1024, img_height = 1024\<rparr>],
          [\<lparr>ann_id = 1, ann_image_id = 1, ann_category_id = 1,
            ann_bbox = [Finite 2, Finite 2, Finite 6, Finite 6], ann_area = Finite 36\<rparr>],
          [\<lparr>cat_id = 1, cat_name = ''wheat_head'', cat_supercategory = ''cereal''\<rparr>]) \<and>
   ann_image_id ` set [\<lparr>ann_id = 1, ann_image_id = 1, ann_category_id = 1,
                        ann_bbox = [Finite 2, Finite 2, Finite 6, Finite 6],
                        ann_area = Finite 36\<rparr>]
     \<subseteq> img_id ` set [\<lparr>img_id = 1, img_file_name = ''wheat_heads/images/a.png'',
                        img_width = 1024, img_height = 1024\<rparr>] \<and>
   create_coco_annotation (\<lambda>b. None) (Some ''png'') ''a.png''
     [\<lparr>bbox = [0, 0, 10, 10], area = 100\<rparr>] 1234567890 2345678901 =
     Inr \<lparr>coco_images = [\<lparr>img_id = 1234567890, img_file_name = ''a.png'',
                           img_width = 512, img_height = 512, img_size = 3,
                           img_format = ''PNG'', img_status = ''success''\<rparr>],
          coco_annotations = [\<lparr>ann_id = 2345678901, ann_image_id = 1234567890,
                                ann_category_id = 1, ann_bbox = [0, 0, 10, 10],
                                ann_area = 100\<rparr>],
          coco_categories = [\<lparr>cat_id = 1, cat_name = ''wheat_head'',
                               cat_supercategory = ''broccoli''\<rparr>]\<rparr>"
proof -
  have h1: "collect_annotations_for_split (\<lambda>b. None) ''wheat_heads''
     (fmap_of_list [(''a.png'', ''png'')])
     (fmap_of_list [(''a.csv'', \<lparr>fieldnames = Some [''x'', ''y'', ''r''],
                                 records = [[CStr ''5'', CStr ''5'', CStr ''3'']]\<rparr>)])
     fmempty ''train'' ''wheat_head'' =
     Inr ([\<lparr>img_id = 1, img_file_name = ''wheat_heads/images/a.png'',
            img_width = 1024, img_height = 1024\<rparr>],
          [\<lparr>ann_id = 1, ann_image_id = 1, ann_category_id = 1,
            ann_bbox = [Finite 2, Finite 2, Finite 6, Finite 6], ann_area = Finite 36\<rparr>],
          [\<lparr>cat_id = 1, cat_name = ''wheat_head'', cat_supercategory = ''cereal''\<rparr>])"
    by code_simp
  have h2: "create_coco_annotation (\<lambda>b. None) (Some ''png'') ''a.png''
     [\<lparr>bbox = [0, 0, 10, 10], area = 100\<rparr>] 1234567890 2345678901 =
     Inr \<lparr>coco_images = [\<lparr>img_id = 1234567890, img_file_name = ''a.png'',
                           img_width = 512, img_height = 512, img_size = 3,
                           img_format = ''PNG'', img_status = ''success''\<rparr>],
          coco_annotations = [\<lparr>ann_id = 2345678901, ann_image_id = 1234567890,
                                ann_category_id = 1, ann_bbox = [0, 0, 10, 10],
                                ann_area = 100\<rparr>],
          coco_categories = [\<lparr>cat_id = 1, cat_name = ''wheat_head'',
                               cat_supercategory = ''broccoli''\<rparr>]\<rparr>"
    by (simp add: create_coco_annotation_def)
  show ?thesis
    using h1 h2
      annotations_refer_to_images [THEN conjunct1, THEN mp, OF h1]
      annotations_refer_to_images [THEN conjunct2, THEN mp, OF h2]
    by simp
qed

lemma map_enumerate_Suc:
  "map (case_prod F) (enumerate (Suc n) as) = map (case_prod (\<lambda>k. F (Suc k))) (enumerate n as)"
  by (simp add: enumerate_Suc_eq comp_def case_prod_beta)

lemma map_enumerate_fst:
  "map (\<lambda>p. f (fst p)) (enumerate n as) = map f [n..<n + length as]"
proof (induction as arbitrary: n)
  case Nil
  show ?case by simp
next
  case (Cons a as)
  have "[n..<n + length (a # as)] = n # [Suc n..<Suc n + length as]"
    by (subst upt_rec) simp
  then show ?case
    using Cons.IH [of "Suc n"] by simp
qed

lemma map_enumerate_snd: "map (\<lambda>p. g (snd p)) (enumerate n as) = map g as"
  by (induction as arbitrary: n) simp_all

lemma collect_loop_images:
  assumes "collect_loop io rn imgs csvs ss st = Inr st'"
  shows "images st' =
           images st @
           map (\<lambda>(k, s). \<lparr>img_id = image_id_counter st + int k,
                           img_file_name = rn @ ''/images/'' @ the (find_image imgs s),
                           img_width = fst (image_size io imgs (the (find_image imgs s))),
                           img_height = snd (image_size io imgs (the (find_image imgs s)))\<rparr>)
               (enumerate 0 (filter (\<lambda>s. find_image imgs s \<noteq> None) ss)) \<and>
         image_id_counter st' =
           image_id_counter st + int (length (filter (\<lambda>s. find_image imgs s \<noteq> None) ss))"
  using assms
proof (induction ss arbitrary: st)
  case Nil
  then show ?case by simp
next
  case (Cons s rest)
  show ?case
  proof (cases "find_image imgs s")
    case None
    then show ?thesis
      using Cons.IH [of st] Cons.prems by simp
  next
    case (Some p)
    obtain boxes st1 where
      st1: "st1 = \<lparr>images = images st @ [\<lparr>img_id = image_id_counter st,
                                      img_file_name = rn @ ''/images/'' @ p,
                                      img_width = fst (image_size io imgs p),
                                      img_height = snd (image_size io imgs p)\<rparr>],
              anns = fst (add_annotations (image_id_counter st) boxes (anns st, ann_id_counter st)),
              image_id_counter = image_id_counter st + 1,
              ann_id_counter = snd (add_annotations (image_id_counter st) boxes (anns st, ann_id_counter st))\<rparr>"
      and run: "collect_loop io rn imgs csvs rest st1 = Inr st'"
      using collect_loop_found [OF Some Cons.prems(1)] by blast
    have i1: "images st1 = images st @ [\<lparr>img_id = image_id_counter st,
                                      img_file_name = rn @ ''/images/'' @ p,
                                      img_width = fst (image_size io imgs p),
                                      img_height = snd (image_size io imgs p)\<rparr>]"
      and c1: "image_id_counter st1 = image_id_counter st + 1"
      by (simp_all add: st1)
    show ?thesis
      using Cons.IH [OF run] Some
      by (simp add: i1 c1 map_enumerate_Suc algebra_simps)
  qed
qed

lemma upt_add_split: "[0..<a + b] = [0..<a] @ map (\<lambda>k. a + k) [0..<b]"
proof -
  have "map (\<lambda>k. a + k) [0..<b] = [a..<a + b]"
    using map_add_upt [of a b] by (simp add: add.commute)
  then show ?thesis
    using upt_add_eq_append [of 0 a b] by simp
qed

lemma collect_loop_anns:
  assumes "collect_loop io rn imgs csvs ss st = Inr st'"
  shows "\<exists>new.
           anns st' = anns st @ new \<and>
           ann_id_counter st' = ann_id_counter st + int (length new) \<and>
           map ann_id new = map (\<lambda>k. ann_id_counter st + int k) [0..<length new] \<and>
           map (\<lambda>a. (ann_image_id a, ann_category_id a, ann_bbox a, ann_area a)) new =
             concat (map (\<lambda>(k, s). map (\<lambda>b. (image_id_counter st + int k, category_id b, bbox b, area b))
                                         (case parse_csv_boxes csvs (s @ ''.csv'') of
                                            Inl e \<Rightarrow> [] | Inr boxes \<Rightarrow> boxes))
                         (enumerate 0 (filter (\<lambda>s. find_image imgs s \<noteq> None) ss)))"
  using assms
proof (induction ss arbitrary: st)
  case Nil
  then show ?case by simp
next
  case (Cons s rest)
  show ?case
  proof (cases "find_image imgs s")
    case None
    then show ?thesis
      using Cons.IH [of st] Cons.prems by simp
  next
    case (Some p)
    obtain boxes st1 where
      pb: "parse_csv_boxes csvs (s @ ''.csv'') = Inr boxes"
      and st1: "st1 = \<lparr>images = images st @ [\<lparr>img_id = image_id_counter st,
                                      img_file_name = rn @ ''/images/'' @ p,
                                      img_width = fst (image_size io imgs p),
                                      img_height = snd (image_size io imgs p)\<rparr>],
              anns = fst (add_annotations (image_id_counter st) boxes (anns st, ann_id_counter st)),
              image_id_counter = image_id_counter st + 1,
              ann_id_counter = snd (add_annotations (image_id_counter st) boxes (anns st, ann_id_counter st))\<rparr>"
      and run: "collect_loop io rn imgs csvs rest st1 = Inr st'"
      using collect_loop_found [OF Some Cons.prems(1)] by blast
    define new1 where
      "new1 = map (\<lambda>(k, box). \<lparr>ann_id = ann_id_counter st + int k,
                                 ann_image_id = image_id_counter st,
                                 ann_category_id = category_id box,
                                 ann_bbox = bbox box, ann_area = area box\<rparr>)
                  (enumerate 0 boxes)"
    have a1: "anns st1 = anns st @ new1"
      and n1: "ann_id_counter st1 = ann_id_counter st + int (length new1)"
      and c1: "image_id_counter st1 = image_id_counter st + 1"
      by (simp_all add: st1 add_annotations_append new1_def)
    have ids1: "map ann_id new1 = map (\<lambda>k. ann_id_counter st + int k) [0..<length new1]"
      using map_enumerate_fst [of "\<lambda>k. ann_id_counter st + int k" 0 boxes]
      by (simp add: new1_def comp_def case_prod_beta)
    have cont1: "map (\<lambda>a. (ann_image_id a, ann_category_id a, ann_bbox a, ann_area a)) new1 =
                   map (\<lambda>b. (image_id_counter st, category_id b, bbox b, area b)) boxes"
      using map_enumerate_snd [of "\<lambda>b. (image_id_counter st, category_id b, bbox b, area b)" 0 boxes]
      by (simp add: new1_def comp_def case_prod_beta)
    obtain new2 where
      a2: "anns st' = anns st1 @ new2"
      and n2: "ann_id_counter st' = ann_id_counter st1 + int (length new2)"
      and ids2: "map ann_id new2 = map (\<lambda>k. ann_id_counter st1 + int k) [0..<length new2]"
      and cont2: "map (\<lambda>a. (ann_image_id a, ann_category_id a, ann_bbox a, ann_area a)) new2 =
             concat (map (\<lambda>(k, s). map (\<lambda>b. (image_id_counter st1 + int k, category_id b, bbox b, area b))
                                         (case parse_csv_boxes csvs (s @ ''.csv'') of
                                            Inl e \<Rightarrow> [] | Inr boxes \<Rightarrow> boxes))
                         (enumerate 0 (filter (\<lambda>s. find_image imgs s \<noteq> None) rest)))"
      using Cons.IH [OF run] by blast
    have ids: "map ann_id (new1 @ new2) =
                 map (\<lambda>k. ann_id_counter st + int k) [0..<length (new1 @ new2)]"
      using ids1 ids2 n1
      by (simp add: upt_add_split comp_def algebra_simps)
    have cont: "map (\<lambda>a. (ann_image_id a, ann_category_id a, ann_bbox a, ann_area a)) (new1 @ new2) =
             concat (map (\<lambda>(k, s). map (\<lambda>b. (image_id_counter st + int k, category_id b, bbox b, area b))
                                         (case parse_csv_boxes csvs (s @ ''.csv'') of
                                            Inl e \<Rightarrow> [] | Inr boxes \<Rightarrow> boxes))
                         (enumerate 0 (filter (\<lambda>s. find_image imgs s \<noteq> None) (s # rest))))"
      using cont1 cont2 Some pb
      by (simp add: c1 map_enumerate_Suc algebra_simps)
    have "anns st' = anns st @ (new1 @ new2) \<and>
          ann_id_counter st' = ann_id_counter st + int (length (new1 @ new2))"
      using a1 a2 n1 n2 by simp
    then show ?thesis
      using ids cont by blast
  qed
qed


lemma map_int_upto: "map (\<lambda>k. 1 + int k) [0..<n] = [1..int n]"
proof (induction n)
  case 0
  show ?case by simp
next
  case (Suc n)
  have "[1..int (Suc n)] = [1..int n] @ [int (Suc n)]"
    using upto_rec2 [of 1 "int (Suc n)"] by simp
  then show ?case
    using Suc.IH by simp
qed

lemma finite_image_stems: "finite (image_stems imgs sets split)"
  by (simp add: image_stems_def glob_stems_def Let_def)

text \<open>
  Claim C8. In a split-level document the stems are taken in sorted order; the images
  are those of the stems whose file is found, in that order, with the ids 1, 2, ...;
  the annotations are the boxes of these images, image after image and row after row,
  with the ids 1, 2, ... over the whole document.
\<close>

theorem split_document_ids:
  assumes "collect_annotations_for_split image_open root_name imgs csvs sets split category_name
             = Inr (ims, as, cats)"
  shows "(let found = filter (\<lambda>s. find_image imgs s \<noteq> None)
                        (sorted_list_of_set (image_stems imgs sets split))
          in sorted_wrt (<) found \<and>
             set found = Set.filter (\<lambda>s. find_image imgs s \<noteq> None) (image_stems imgs sets split) \<and>
             map img_id ims = [1..int (length ims)] \<and>
             map img_file_name ims =
               map (\<lambda>s. root_name @ ''/images/'' @ the (find_image imgs s)) found \<and>
             map ann_id as = [1..int (length as)] \<and>
             map (\<lambda>a. (ann_image_id a, ann_category_id a, ann_bbox a, ann_area a)) as =
               concat (map (\<lambda>(k, s). map (\<lambda>b. (1 + int k, category_id b, bbox b, area b))
                                           (case parse_csv_boxes csvs (s @ ''.csv'') of
                                              Inl e \<Rightarrow> [] | Inr boxes \<Rightarrow> boxes))
                           (enumerate 0 found)))"
proof -
  let ?stems = "sorted_list_of_set (image_stems imgs sets split)"
  let ?found = "filter (\<lambda>s. find_image imgs s \<noteq> None) ?stems"
  let ?st = "\<lparr>images = [], anns = [], image_id_counter = 1, ann_id_counter = 1\<rparr>"
  obtain st' where
    run: "collect_loop image_open root_name imgs csvs ?stems ?st = Inr st'"
    and res: "ims = images st'" "as = anns st'"
    using assms by (auto simp: collect_annotations_for_split_def split: sum.splits)
  have s1: "sorted_wrt (<) ?found"
    using sorted_wrt_filter [of "(<)" ?stems] by simp
  have s2: "set ?found = Set.filter (\<lambda>s. find_image imgs s \<noteq> None) (image_stems imgs sets split)"
    using finite_image_stems [of imgs sets split] by auto
  have im: "ims = map (\<lambda>(k, s). \<lparr>img_id = 1 + int k,
                           img_file_name = root_name @ ''/images/'' @ the (find_image imgs s),
                           img_width = fst (image_size image_open imgs (the (find_image imgs s))),
                           img_height = snd (image_size image_open imgs (the (find_image imgs s)))\<rparr>)
                   (enumerate 0 ?found)"
    using collect_loop_images [OF run] res by simp
  have len: "length ims = length ?found"
    using arg_cong [OF im, of length] by simp
  have "map img_id ims = map (\<lambda>k. 1 + int k) [0..<length ?found]"
    using map_enumerate_fst [of "\<lambda>k. 1 + int k" 0 ?found]
    by (simp add: im comp_def case_prod_beta)
  then have i1: "map img_id ims = [1..int (length ims)]"
    by (simp add: map_int_upto len)
  have i2: "map img_file_name ims =
              map (\<lambda>s. root_name @ ''/images/'' @ the (find_image imgs s)) ?found"
    using map_enumerate_snd [of "\<lambda>s. root_name @ ''/images/'' @ the (find_image imgs s)" 0 ?found]
    by (simp add: im comp_def case_prod_beta)
  obtain new where
    a: "anns st' = new"
    and ids: "map ann_id new = map (\<lambda>k. 1 + int k) [0..<length new]"
    and cont: "map (\<lambda>a. (ann_image_id a, ann_category_id a, ann_bbox a, ann_area a)) new =
             concat (map (\<lambda>(k, s). map (\<lambda>b. (1 + int k, category_id b, bbox b, area b))
                                         (case parse_csv_boxes csvs (s @ ''.csv'') of
                                            Inl e \<Rightarrow> [] | Inr boxes \<Rightarrow> boxes))
                         (enumerate 0 ?found))"
    using collect_loop_anns [OF run] by auto
  have a1: "map ann_id as = [1..int (length as)]"
    using ids a res by (simp add: map_int_upto)
  have a2: "map (\<lambda>a. (ann_image_id a, ann_category_id a, ann_bbox a, ann_area a)) as =
             concat (map (\<lambda>(k, s). map (\<lambda>b. (1 + int k, category_id b, bbox b, area b))
                                         (case parse_csv_boxes csvs (s @ ''.csv'') of
                                            Inl e \<Rightarrow> [] | Inr boxes \<Rightarrow> boxes))
                         (enumerate 0 ?found))"
    using cont a res by simp
  show ?thesis
    unfolding Let_def using s1 s2 i1 i2 a1 a2 by blast
qed

theorem split_document_ids_witness:
  "collect_annotations_for_split (\<lambda>b. None) ''wheat_heads''
     (fmap_of_list [(''a.png'', ''png''), (''b.jpg'', ''jpg'')])
     (fmap_of_list [(''a.csv'', \<lparr>fieldnames = Some [''x'', ''y'', ''width'', ''height''],
                                 records = [[CStr ''1'', CStr ''2'', CStr ''3'', CStr ''4''],
                                            [CStr ''5'', CStr ''6'', CStr ''7'', CStr ''8'']]\<rparr>),
                    (''b.csv'', \<lparr>fieldnames = Some [''x'', ''y'', ''r''],
                                 records = [[CStr ''5'', CStr ''5'', CStr ''3'']]\<rparr>)])
     (fmap_of_list [(''train.txt'', ''c\<newline>b\<newline>a\<newline>'')]) ''train'' ''wheat_head'' =
     Inr ([\<lparr>img_id = 1, img_file_name = ''wheat_heads/images/a.png'',
            img_width = 1024, img_height = 1024\<rparr>,
           \<lparr>img_id = 2, img_file_name = ''wheat_heads/images/b.jpg'',
            img_width = 1024, img_height = 1024\<rparr>],
          [\<lparr>ann_id = 1, ann_image_id = 1, ann_category_id = 1,
            ann_bbox = [Finite 1, Finite 2, Finite 3, Finite 4], ann_area = Finite 12\<rparr>,
           \<lparr>ann_id = 2, ann_image_id = 1, ann_category_id = 1,
            ann_bbox = [Finite 5, Finite 6, Finite 7, Finite 8], ann_area = Finite 56\<rparr>,
           \<lparr>ann_id = 3, ann_image_id = 2, ann_category_id = 1,
            ann_bbox = [Finite 2, Finite 2, Finite 6, Finite 6], ann_area = Finite 36\<rparr>],
          [\<lparr>cat_id = 1, cat_name = ''wheat_head'', cat_supercategory = ''cereal''\<rparr>]) \<and>
   filter (\<lambda>s. find_image (fmap_of_list [(''a.png'', ''png''), (''b.jpg'', ''jpg'')]) s \<noteq> None)
     (sorted_list_of_set (image_stems (fmap_of_list [(''a.png'', ''png''), (''b.jpg'', ''jpg'')])
                            (fmap_of_list [(''train.txt'', ''c\<newline>b\<newline>a\<newline>'')]) ''train''))
     = [''a'', ''b'']"
proof -
  have h1: "collect_annotations_for_split (\<lambda>b. None) ''wheat_heads''
     (fmap_of_list [(''a.png'', ''png''), (''b.jpg'', ''jpg'')])
     (fmap_of_list [(''a.csv'', \<lparr>fieldnames = Some [''x'', ''y'', ''width'', ''height''],
                                 records = [[CStr ''1'', CStr ''2'', CStr ''3'', CStr ''4''],
                                            [CStr ''5'', CStr ''6'', CStr ''7'', CStr ''8'']]\<rparr>),
                    (''b.csv'', \<lparr>fieldnames = Some [''x'', ''y'', ''r''],
                                 records = [[CStr ''5'', CStr ''5'', CStr ''3'']]\<rparr>)])
     (fmap_of_list [(''train.txt'', ''c\<newline>b\<newline>a\<newline>'')]) ''train'' ''wheat_head'' =
     Inr ([\<lparr>img_id = 1, img_file_name = ''wheat_heads/images/a.png'',
            img_width = 1024, img_height = 1024\<rparr>,
           \<lparr>img_id = 2, img_file_name = ''wheat_heads/images/b.jpg'',
            img_width = 1024, img_height = 1024\<rparr>],
          [\<lparr>ann_id = 1, ann_image_id = 1, ann_category_id = 1,
            ann_bbox = [Finite 1, Finite 2, Finite 3, Finite 4], ann_area = Finite 12\<rparr>,
           \<lparr>ann_id = 2, ann_image_id = 1, ann_category_id = 1,
            ann_bbox = [Finite 5, Finite 6, Finite 7, Finite 8], ann_area = Finite 56\<rparr>,
           \<lparr>ann_id = 3, ann_image_id = 2, ann_category_id = 1,
            ann_bbox = [Finite 2, Finite 2, Finite 6, Finite 6], ann_area = Finite 36\<rparr>],
          [\<lparr>cat_id = 1, cat_name = ''wheat_head'', cat_supercategory = ''cereal''\<rparr>])"
    by code_simp
  have h2: "filter (\<lambda>s. find_image (fmap_of_list [(''a.png'', ''png''), (''b.jpg'', ''jpg'')]) s \<noteq> None)
     (sorted_list_of_set (image_stems (fmap_of_list [(''a.png'', ''png''), (''b.jpg'', ''jpg'')])
                            (fmap_of_list [(''train.txt'', ''c\<newline>b\<newline>a\<newline>'')]) ''train''))
     = [''a'', ''b'']"
    by code_simp
  show ?thesis
    using h1 h2 split_document_ids [OF h1] by simp
qed

subsection \<open>Running the Reorganizer again\<close>



lemma process_image_output:
  "fmlookup (images_output_dir (files (process_image e st))) k =
     (case fmlookup (images_output_dir (files st)) k of
        Some c \<Rightarrow> Some c
      | None \<Rightarrow> if k = fst e then fmlookup (images_dir (files st)) k else None)"
  by (auto simp: process_image_def Let_def exists_def copy2_def split: option.splits)


lemma process_image_csv_dir:
  "csv_dir (files (process_image e st)) =
     (if exists (images_dir (files st)) (fst e)
      then fmupd (stem (fst e) @ ''.csv'') (csv_document (parse_boxes_string (snd e)))
             (csv_dir (files st))
      else csv_dir (files st))"
  by (simp add: process_image_def Let_def create_csv_annotation_def)













section \<open>The Reorganizer, then the converter\<close>

lemma main_single_row:
  "main (Some [(name, boxes)]) None None f =
     process_image (name, boxes)
       \<lparr>files = f\<lparr>sets_dir := write_sets {name} {} {} (sets_dir f)\<rparr>,
        processed = 0, skipped = 0\<rparr> \<and>
   main None (Some [(name, boxes)]) None f =
     process_image (name, boxes)
       \<lparr>files = f\<lparr>sets_dir := write_sets {} {name} {} (sets_dir f)\<rparr>,
        processed = 0, skipped = 0\<rparr> \<and>
   main None None (Some [(name, boxes)]) f =
     process_image (name, boxes)
       \<lparr>files = f\<lparr>sets_dir := write_sets {} {} {name} (sets_dir f)\<rparr>,
        processed = 0, skipped = 0\<rparr>"
  by (simp add: main_def read_csv_data_def merge_dicts_def dict_of_def Let_def)

lemma collect_single_image:
  assumes "fmlookup sets (split @ ''.txt'') = Some ''a\<newline>''"
      and "exists imgs ''a.png''"
      and "fmlookup csvs ''a.csv'' = Some (csv_document (parse_boxes_string (Some ''0 0 10 10'')))"
  shows "collect_annotations_for_split image_open root_name imgs csvs sets split category_name =
           Inr ([\<lparr>img_id = 1, img_file_name = root_name @ ''/images/a.png'',
                  img_width = fst (image_size image_open imgs ''a.png''),
                  img_height = snd (image_size image_open imgs ''a.png'')\<rparr>],
                [\<lparr>ann_id = 1, ann_image_id = 1, ann_category_id = 1,
                  ann_bbox = [Finite 0, Finite 0, Finite 10, Finite 10],
                  ann_area = Finite 100\<rparr>],
                [\<lparr>cat_id = 1, cat_name = category_name, cat_supercategory = ''cereal''\<rparr>])"
proof -
  have lines: "filter (\<lambda>line. line \<noteq> []) (map strip (splitlines ''a\<newline>'')) = [''a'']"
    by code_simp
  have stems: "image_stems imgs sets split = {''a''}"
    using assms(1) by (simp add: image_stems_def read_split_list_def lines)
  have found: "find_image imgs ''a'' = Some ''a.png''"
    using assms(2) by (simp add: find_image_def)
  have rows: "parse_csv_rows [''#item'', ''x'', ''y'', ''width'', ''height'', ''label'']
                (records (csv_document (parse_boxes_string (Some ''0 0 10 10'')))) [] =
              Inr [\<lparr>bbox = [Finite 0, Finite 0, Finite 10, Finite 10], area = Finite 100,
                    category_id = 1\<rparr>]"
    by code_simp
  have boxes: "parse_csv_boxes csvs ''a.csv'' =
                 Inr [\<lparr>bbox = [Finite 0, Finite 0, Finite 10, Finite 10], area = Finite 100,
                       category_id = 1\<rparr>]"
    using assms(3) rows by (simp add: parse_csv_boxes_def csv_document_def)
  show ?thesis
    using found boxes
    by (simp add: collect_annotations_for_split_def stems case_prod_beta)
qed


lemma reorganized_single_row:
  assumes "exists (images_dir (files st)) ''a.png''"
  shows "exists (images_output_dir (files (process_image (''a.png'', boxes) st))) ''a.png'' \<and>
         fmlookup (csv_dir (files (process_image (''a.png'', boxes) st))) ''a.csv'' =
           Some (csv_document (parse_boxes_string boxes))"
proof -
  have st: "stem ''a.png'' = ''a''"
    by code_simp
  have "fmlookup (images_output_dir (files (process_image (''a.png'', boxes) st))) ''a.png'' \<noteq> None"
    using assms process_image_output [of "(''a.png'', boxes)" st "''a.png''"]
    by (auto simp: exists_def split: option.splits)
  then show ?thesis
    using assms by (simp add: exists_def process_image_csv_dir st)
qed

lemma written_sets_single:
  "set_lines {''a.png''} = [''a''] \<and> set_lines {} = []"
  by code_simp

text \<open>
  Claim C2. One of the three wide-table CSVs has the single row \<^verbatim>\<open>a.png\<close>,
  \<^verbatim>\<open>0 0 10 10\<close>, the other two have none, and the image \<^verbatim>\<open>a.png\<close> is in the source
  directory. The converter, run on the tree the Reorganizer leaves, for the split of
  that CSV, gives a document with exactly one image and exactly one annotation, whose
  bbox is \<open>[0, 0, 10, 10]\<close>.
\<close>

theorem reorganize_then_convert:
  assumes "exists (images_dir f) ''a.png''"
  shows "(let row = (''a.png'', Some ''0 0 10 10'');
              convert = (\<lambda>split t. collect_annotations_for_split image_open root_name
                                       (images_output_dir t) (csv_dir t) (sets_dir t)
                                       split category_name);
              document = (\<lambda>t. Inr ([\<lparr>img_id = 1, img_file_name = root_name @ ''/images/a.png'',
                                        img_width = fst (image_size image_open (images_output_dir t) ''a.png''),
                                        img_height = snd (image_size image_open (images_output_dir t) ''a.png'')\<rparr>],
                                      [\<lparr>ann_id = 1, ann_image_id = 1, ann_category_id = 1,
                                        ann_bbox = [Finite 0, Finite 0, Finite 10, Finite 10],
                                        ann_area = Finite 100\<rparr>],
                                      [\<lparr>cat_id = 1, cat_name = category_name,
                                        cat_supercategory = ''cereal''\<rparr>]))
          in convert ''train'' (files (main (Some [row]) None None f)) =
               document (files (main (Some [row]) None None f)) \<and>
             convert ''val'' (files (main None (Some [row]) None f)) =
               document (files (main None (Some [row]) None f)) \<and>
             convert ''test'' (files (main None None (Some [row]) f)) =
               document (files (main None None (Some [row]) f)))"
proof -
  let ?row = "(''a.png'', Some ''0 0 10 10'')"
  have t: "fmlookup (sets_dir (files (main (Some [?row]) None None f))) (''train'' @ ''.txt'') = Some ''a\<newline>''"
    by (simp add: main_sets read_csv_data_def write_sets_def write_set_def written_sets_single)
  have v: "fmlookup (sets_dir (files (main None (Some [?row]) None f))) (''val'' @ ''.txt'') = Some ''a\<newline>''"
    by (simp add: main_sets read_csv_data_def write_sets_def write_set_def written_sets_single)
  have e: "fmlookup (sets_dir (files (main None None (Some [?row]) f))) (''test'' @ ''.txt'') = Some ''a\<newline>''"
    by (simp add: main_sets read_csv_data_def write_sets_def write_set_def written_sets_single)
  have r1: "exists (images_output_dir (files (main (Some [?row]) None None f))) ''a.png'' \<and>
            fmlookup (csv_dir (files (main (Some [?row]) None None f))) ''a.csv'' =
              Some (csv_document (parse_boxes_string (Some ''0 0 10 10'')))"
    using assms reorganized_single_row
            [of "\<lparr>files = f\<lparr>sets_dir := write_sets {''a.png''} {} {} (sets_dir f)\<rparr>,
                  processed = 0, skipped = 0\<rparr>" "Some ''0 0 10 10''"]
    by (simp add: main_single_row)
  have r2: "exists (images_output_dir (files (main None (Some [?row]) None f))) ''a.png'' \<and>
            fmlookup (csv_dir (files (main None (Some [?row]) None f))) ''a.csv'' =
              Some (csv_document (parse_boxes_string (Some ''0 0 10 10'')))"
    using assms reorganized_single_row
            [of "\<lparr>files = f\<lparr>sets_dir := write_sets {} {''a.png''} {} (sets_dir f)\<rparr>,
                  processed = 0, skipped = 0\<rparr>" "Some ''0 0 10 10''"]
    by (simp add: main_single_row)
  have r3: "exists (images_output_dir (files (main None None (Some [?row]) f))) ''a.png'' \<and>
            fmlookup (csv_dir (files (main None None (Some [?row]) f))) ''a.csv'' =
              Some (csv_document (parse_boxes_string (Some ''0 0 10 10'')))"
    using assms reorganized_single_row
            [of "\<lparr>files = f\<lparr>sets_dir := write_sets {} {} {''a.png''} (sets_dir f)\<rparr>,
                  processed = 0, skipped = 0\<rparr>" "Some ''0 0 10 10''"]
    by (simp add: main_single_row)
  show ?thesis
    unfolding Let_def
    using collect_single_image [OF t conjunct1 [OF r1] conjunct2 [OF r1], of image_open root_name category_name]
      collect_single_image [OF v conjunct1 [OF r2] conjunct2 [OF r2], of image_open root_name category_name]
      collect_single_image [OF e conjunct1 [OF r3] conjunct2 [OF r3], of image_open root_name category_name]
    by blast
qed

theorem reorganize_then_convert_witness:
  "exists (images_dir (fresh [(''a.png'', ''png'')])) ''a.png'' \<and>
   collect_annotations_for_split (\<lambda>b. Some (640, 480)) ''wheat_heads''
     (images_output_dir (files (main (Some [(''a.png'', Some ''0 0 10 10'')]) None None
                                  (fresh [(''a.png'', ''png'')]))))
     (csv_dir (files (main (Some [(''a.png'', Some ''0 0 10 10'')]) None None
                        (fresh [(''a.png'', ''png'')]))))
     (sets_dir (files (main (Some [(''a.png'', Some ''0 0 10 10'')]) None None
                         (fresh [(''a.png'', ''png'')]))))
     ''train'' ''wheat_head'' =
   Inr ([\<lparr>img_id = 1, img_file_name = ''wheat_heads/images/a.png'',
          img_width = 640, img_height = 480\<rparr>],
        [\<lparr>ann_id = 1, ann_image_id = 1, ann_category_id = 1,
          ann_bbox = [Finite 0, Finite 0, Finite 10, Finite 10], ann_area = Finite 100\<rparr>],
        [\<lparr>cat_id = 1, cat_name = ''wheat_head'', cat_supercategory = ''cereal''\<rparr>])"
proof -
  have h: "exists (images_dir (fresh [(''a.png'', ''png'')])) ''a.png''"
    by (simp add: fresh_def exists_def)
  have size: "image_size (\<lambda>b. Some (640, 480))
                (images_output_dir (files (main (Some [(''a.png'', Some ''0 0 10 10'')]) None None
                                             (fresh [(''a.png'', ''png'')]))))
                ''a.png'' = (640, 480)"
    by code_simp
  show ?thesis
    using h reorganize_then_convert [OF h, of "\<lambda>b. Some (640, 480)" "''wheat_heads''" "''wheat_head''"]
    by (simp add: Let_def size)
qed

section \<open>The rows of a per-image CSV\<close>

text \<open>
  The order of the cases in the loop body, for a row whose label is missing, empty,
  not a number, or a finite number: the radius first, then width and height.
\<close>

lemma parse_csv_row_cases:
  assumes "get row [''x'', ''xc'', ''x_center''] = Some x0"
      and "get row [''y'', ''yc'', ''y_center''] = Some y0"
      and "(case get row [''label'', ''class'', ''category_id''] of
              None \<Rightarrow> Inr 1 | Some l \<Rightarrow> float_to_int l) = Inr cat"
  shows "parse_csv_row row =
           Inr (case get row [''r'', ''radius''] of
                  Some r \<Rightarrow>
                    Some \<lparr>bbox = [fsub x0 r, fsub y0 r, fmul (Finite 2) r, fmul (Finite 2) r],
                          area = fmul (fmul (Finite 2) r) (fmul (Finite 2) r),
                          category_id = cat\<rparr>
                | None \<Rightarrow>
                    (case (get row [''w'', ''width'', ''dx''], get row [''h'', ''height'', ''dy'']) of
                       (Some w, Some h) \<Rightarrow>
                         Some \<lparr>bbox = [x0, y0, w, h], area = fmul w h, category_id = cat\<rparr>
                     | _ \<Rightarrow> None))"
  using assms
  by (simp add: parse_csv_row_def Let_def del: get.simps split: option.splits)

lemma circle_row:
  "parse_csv_boxes
     (fmap_of_list [(''a.csv'', \<lparr>fieldnames = Some [''x'', ''y'', ''r''],
                                 records = [[CStr ''5'', CStr ''5'', CStr ''3'']]\<rparr>)])
     ''a.csv'' =
   Inr [\<lparr>bbox = [Finite 2, Finite 2, Finite 6, Finite 6], area = Finite 36, category_id = 1\<rparr>]"
  by code_simp

text \<open>
  Claim C6 fails on the code for a row whose label is \<^verbatim>\<open>nan\<close> (or \<^verbatim>\<open>inf\<close>): \<^verbatim>\<open>x\<close>, \<^verbatim>\<open>y\<close>
  and \<^verbatim>\<open>r\<close> are parseable, and \<^verbatim>\<open>int(label)\<close> raises before the box is built, so the
  row yields no box and the parse of the file ends with the exception.
\<close>

theorem label_nan_raises:
  "get (lower_keys (dict_row [''x'', ''y'', ''r'', ''label'']
                             [CStr ''5'', CStr ''5'', CStr ''3'', CStr ''nan'']))
       [''x'', ''xc'', ''x_center''] = Some (Finite 5) \<and>
   get (lower_keys (dict_row [''x'', ''y'', ''r'', ''label'']
                             [CStr ''5'', CStr ''5'', CStr ''3'', CStr ''nan'']))
       [''y'', ''yc'', ''y_center''] = Some (Finite 5) \<and>
   get (lower_keys (dict_row [''x'', ''y'', ''r'', ''label'']
                             [CStr ''5'', CStr ''5'', CStr ''3'', CStr ''nan'']))
       [''r'', ''radius''] = Some (Finite 3) \<and>
   parse_csv_boxes
     (fmap_of_list [(''a.csv'', \<lparr>fieldnames = Some [''x'', ''y'', ''r'', ''label''],
                                 records = [[CStr ''5'', CStr ''5'', CStr ''3'', CStr ''nan'']]\<rparr>)])
     ''a.csv'' = Inl ValueError \<and>
   collect_annotations_for_split (\<lambda>b. None) ''wheat_heads''
     (fmap_of_list [(''a.png'', ''png'')])
     (fmap_of_list [(''a.csv'', \<lparr>fieldnames = Some [''x'', ''y'', ''r'', ''label''],
                                 records = [[CStr ''5'', CStr ''5'', CStr ''3'', CStr ''nan'']]\<rparr>)])
     fmempty ''train'' ''wheat_head'' = Inl ValueError"
  by code_simp

end
